theory Spec2Isabelle
  imports
    Complex_Main
    "HOL-Library.Word"
    "HOL-Library.Char_ord"
    "HOL-Library.List_Lexorder"
    "HOL-Library.Multiset"
begin

section \<open>Data model of \<open>modules/stake/types.go\<close>\<close>

text \<open>
  Modelled from the spec: the struct \<open>Decimal\<close>, its methods and the package variable
  \<open>Zero\<close> are declared in another file of the package. The spec describes a \<open>Decimal\<close> as
  an exact fixed-point or arbitrary-precision rational value with exact addition and
  multiplication and a total comparison. A \<open>Decimal\<close> therefore stands for a rational
  number, \<open>val\<close>, and the methods \<open>Mul\<close>, \<open>Add\<close>, \<open>LT\<close>, \<open>GT\<close>, \<open>Equal\<close> and \<open>IntPart\<close> (in
  the spec's words the integer floor) compute on that number.

  Go's built-in \<open>==\<close> and \<open>!=\<close> on a struct compare the struct's fields and not the number
  they stand for. The fields of \<open>Decimal\<close> are not in the sources, so \<open>rep\<close> stands for what
  they hold (for a field that is a pointer, the address): two \<open>Decimal\<close>s are \<open>==\<close> when
  they have the same \<open>rep\<close>, a copy of a \<open>Decimal\<close> has the \<open>rep\<close> of the original, and one
  number can be held in \<open>Decimal\<close>s of different \<open>rep\<close>. Equality of the record is Go's \<open>==\<close>.

  Which \<open>rep\<close> the library gives to the result of \<open>Mul\<close> or \<open>Add\<close> is not in the sources
  either. It is fixed to 0 here, and nothing below depends on it: no result of \<open>Mul\<close> or
  \<open>Add\<close> is compared with \<open>==\<close> or \<open>!=\<close>, and the statements about a returned total are about
  its number.
\<close>

record Decimal =
  rep :: nat
  val :: rat

definition Zero :: Decimal where
  "Zero = \<lparr>rep = 0, val = 0\<rparr>"

definition Mul :: "Decimal \<Rightarrow> Decimal \<Rightarrow> Decimal" where
  "Mul a b = \<lparr>rep = 0, val = val a * val b\<rparr>"

definition Add :: "Decimal \<Rightarrow> Decimal \<Rightarrow> Decimal" where
  "Add a b = \<lparr>rep = 0, val = val a + val b\<rparr>"

definition LT :: "Decimal \<Rightarrow> Decimal \<Rightarrow> bool" where
  "LT a b = (val a < val b)"

definition GT :: "Decimal \<Rightarrow> Decimal \<Rightarrow> bool" where
  "GT a b = (val a > val b)"

definition Equal :: "Decimal \<Rightarrow> Decimal \<Rightarrow> bool" where
  "Equal a b = (val a = val b)"

definition IntPart :: "Decimal \<Rightarrow> int" where
  "IntPart d = \<lfloor>val d\<rfloor>"

type_synonym byte = "8 word"

text \<open>
  \<open>sdk.Actor\<close> of the cosmos-sdk: a chain id, an application id and an address. Go's
  strings are byte sequences compared bytewise, which is the lexicographic order on
  \<open>char list\<close>.
\<close>

record Actor =
  ChainID :: string
  App :: string
  Address :: "byte list"

record DelegateeBond =
  Delegatee :: Actor
  Commission :: Decimal
  ExchangeRate :: Decimal
  TotalBondTokens :: Decimal
  Account :: Actor
  VotingPower :: Decimal

text \<open>\<open>abci.Validator\<close>: a public key and an unsigned 64-bit power.\<close>

record abci_Validator =
  PubKey :: "byte list"
  Power :: "64 word"

type_synonym DelegateeBonds = "DelegateeBond list"

datatype error =
  MakeSliceCapOutOfRange
| NilPointerDereference
| CannotRemoveNegativeElement
| ElementOutOfUpperBound
| IndexOutOfRange

text \<open>\<open>bytes.Compare\<close> and \<open>bytes.Equal\<close> of the Go standard library.\<close>

fun bytes_Compare :: "byte list \<Rightarrow> byte list \<Rightarrow> int" where
  "bytes_Compare [] [] = 0"
| "bytes_Compare [] (y # ys) = - 1"
| "bytes_Compare (x # xs) [] = 1"
| "bytes_Compare (x # xs) (y # ys) =
     (if x < y then - 1 else if y < x then 1 else bytes_Compare xs ys)"

definition bytes_Equal :: "byte list \<Rightarrow> byte list \<Rightarrow> bool" where
  "bytes_Equal a b = (a = b)"

text \<open>
  \<open>Actor.Equals\<close> of the cosmos-sdk compares the three fields; \<open>DelegatorBonds.Get\<close>
  below writes the same comparison out.
\<close>

definition Equals :: "Actor \<Rightarrow> Actor \<Rightarrow> bool" where
  "Equals a b = (ChainID a = ChainID b \<and> App a = App b \<and> bytes_Equal (Address a) (Address b))"

section \<open>The sort interface of \<open>DelegateeBonds\<close>\<close>

definition Validator :: "DelegateeBond \<Rightarrow> abci_Validator" where
  "Validator b =
     \<lparr>PubKey = Address (DelegateeBond.Delegatee b),
      Power = word_of_int (IntPart (VotingPower b))\<rparr>"

definition Len :: "DelegateeBonds \<Rightarrow> nat" where
  "Len b = length b"

definition Swap :: "DelegateeBonds \<Rightarrow> nat \<Rightarrow> nat \<Rightarrow> DelegateeBonds" where
  "Swap b i j = b[i := b ! j, j := b ! i]"

text \<open>
  \<open>Less(i, j)\<close> reads \<open>b[i]\<close> and \<open>b[j]\<close>; the sort calls it with both indices below
  \<open>Len()\<close> only (outside that range the Go code panics), and every statement about
  \<open>Less\<close> below is about indices in range. \<open>vp1 != vp2\<close> is Go's built-in comparison of
  the two structs, the inequality of the records; \<open>GT\<close> compares the numbers.
\<close>

definition Less :: "DelegateeBonds \<Rightarrow> nat \<Rightarrow> nat \<Rightarrow> bool" where
  "Less b i j =
     (let vp1 = VotingPower (b ! i); vp2 = VotingPower (b ! j);
          d1 = DelegateeBond.Delegatee (b ! i); d2 = DelegateeBond.Delegatee (b ! j)
      in if vp1 \<noteq> vp2 then GT vp1 vp2
         else if ChainID d1 < ChainID d2 then True
         else if ChainID d1 > ChainID d2 then False
         else if App d1 < App d2 then True
         else if App d1 > App d2 then False
         else bytes_Compare (Address d1) (Address d2) = - 1)"

text \<open>
  \<open>Sort\<close> calls \<open>sort.Sort\<close> of the Go standard library, which sees the collection through
  \<open>Len\<close>, \<open>Less\<close> and \<open>Swap\<close> only. It is modelled by the insertion sort that library runs
  on short slices, which is all the library does on the collections of two and three
  elements evaluated below: for each \<open>i\<close> from 1, the element at \<open>i\<close> is swapped downwards
  while it is \<open>Less\<close> than its predecessor. What is proved of \<open>Sort\<close> for every length is
  that the result is a permutation of the input in which the numbers of the voting
  powers never increase.
\<close>

fun insertionSort_inner :: "DelegateeBonds \<Rightarrow> nat \<Rightarrow> DelegateeBonds" where
  "insertionSort_inner b 0 = b"
| "insertionSort_inner b (Suc j) =
     (if Less b (Suc j) j then insertionSort_inner (Swap b (Suc j) j) j else b)"

definition insertionSort :: "DelegateeBonds \<Rightarrow> DelegateeBonds" where
  "insertionSort b = foldl insertionSort_inner b [1 ..< Len b]"

definition Sort :: "DelegateeBonds \<Rightarrow> DelegateeBonds" where
  "Sort b = insertionSort b"

section \<open>\<open>UpdateVotingPower\<close>\<close>

text \<open>
  The package variables \<open>minValBond\<close> and \<open>maxVal\<close> are declared in another file and are
  parameters here. The collection is a slice, so the caller sees what the call does to
  the backing array: the function returns the backing collection after the call together
  with \<open>totalPower\<close>, which starts as the zero value of \<open>Decimal\<close> (the number 0).

  Both loops are \<open>for _, bv := range b\<close>: \<open>bv\<close> is a variable of the loop that receives a
  copy of each element in turn, and an assignment to \<open>bv.VotingPower\<close> changes that
  variable. The state of a loop is the backing collection together with \<open>bv\<close> (\<open>None\<close>
  before the first iteration) and, in the second loop, \<open>totalPower\<close>; the loops run over
  the elements the slice holds when the loop starts.
\<close>

fun UpdateVotingPower_floor ::
  "Decimal \<Rightarrow> DelegateeBond list \<Rightarrow> DelegateeBonds \<times> DelegateeBond option \<Rightarrow>
   DelegateeBonds \<times> DelegateeBond option" where
  "UpdateVotingPower_floor minValBond [] (b, bv) = (b, bv)"
| "UpdateVotingPower_floor minValBond (e # rest) (b, bv) =
     (let bv = e;
          vp = Mul (TotalBondTokens bv) (ExchangeRate bv);
          bv = (if LT vp minValBond then bv\<lparr>VotingPower := Zero\<rparr> else bv\<lparr>VotingPower := vp\<rparr>)
      in UpdateVotingPower_floor minValBond rest (b, Some bv))"

fun UpdateVotingPower_truncate ::
  "int \<Rightarrow> nat \<Rightarrow> DelegateeBond list \<Rightarrow> DelegateeBonds \<times> DelegateeBond option \<times> Decimal \<Rightarrow>
   DelegateeBonds \<times> DelegateeBond option \<times> Decimal" where
  "UpdateVotingPower_truncate maxVal i [] (b, bv, totalPower) = (b, bv, totalPower)"
| "UpdateVotingPower_truncate maxVal i (e # rest) (b, bv, totalPower) =
     (let bv = e
      in if int i \<le> maxVal
         then UpdateVotingPower_truncate maxVal (Suc i) rest
                (b, Some bv, Add totalPower (VotingPower bv))
         else (let bv = bv\<lparr>VotingPower := Zero\<rparr>
               in UpdateVotingPower_truncate maxVal (Suc i) rest (b, Some bv, totalPower)))"

definition UpdateVotingPower :: "Decimal \<Rightarrow> int \<Rightarrow> DelegateeBonds \<Rightarrow> DelegateeBonds \<times> Decimal" where
  "UpdateVotingPower minValBond maxVal b =
     (let (b, bv) = UpdateVotingPower_floor minValBond b (b, None);
          b = Sort b;
          (b, bv, totalPower) =
            UpdateVotingPower_truncate maxVal 0 b (b, None, \<lparr>rep = 0, val = 0\<rparr>)
      in (b, totalPower))"

section \<open>Active set and its difference to the previous one\<close>

text \<open>
  \<open>make([]*abci.Validator, 0, maxVal)\<close> panics when \<open>maxVal\<close> is negative; otherwise
  \<open>maxVal\<close> is the capacity the slice starts with, and \<open>append\<close> grows the slice past it.
  Exhausting the memory with a huge capacity is not modelled.
\<close>

definition make_cap :: "int \<Rightarrow> error + abci_Validator list" where
  "make_cap n = (if n < 0 then Inl MakeSliceCapOutOfRange else Inr [])"

fun GetValidators_loop :: "DelegateeBond list \<Rightarrow> abci_Validator list \<Rightarrow> abci_Validator list" where
  "GetValidators_loop [] validators = validators"
| "GetValidators_loop (bv # rest) validators =
     (if Equal (VotingPower bv) Zero then validators
      else GetValidators_loop rest (validators @ [Validator bv]))"

definition GetValidators :: "DelegateeBonds \<Rightarrow> int \<Rightarrow> error + abci_Validator list" where
  "GetValidators b maxVal =
     (case make_cap maxVal of
        Inl e \<Rightarrow> Inl e
      | Inr validators \<Rightarrow> Inr (GetValidators_loop b validators))"

fun getValidatorPower :: "abci_Validator list \<Rightarrow> byte list \<Rightarrow> 64 word" where
  "getValidatorPower [] pubKey = 0"
| "getValidatorPower (validator # rest) pubKey =
     (if bytes_Equal (PubKey validator) pubKey then Power validator
      else getValidatorPower rest pubKey)"

text \<open>
  The previous set is a slice of pointers: an entry is \<open>None\<close> for a nil pointer, and
  reading \<open>prev.PubKey\<close> through it panics.
\<close>

fun ValidatorsDiff_loop ::
  "abci_Validator list \<Rightarrow> abci_Validator option list \<Rightarrow> abci_Validator list \<Rightarrow> error + abci_Validator list" where
  "ValidatorsDiff_loop new [] diff = Inr diff"
| "ValidatorsDiff_loop new (None # rest) diff = Inl NilPointerDereference"
| "ValidatorsDiff_loop new (Some prev # rest) diff =
     (let currentPower = getValidatorPower new (PubKey prev)
      in if currentPower \<noteq> Power prev
         then ValidatorsDiff_loop new rest (diff @ [\<lparr>PubKey = PubKey prev, Power = currentPower\<rparr>])
         else ValidatorsDiff_loop new rest diff)"

definition ValidatorsDiff ::
  "DelegateeBonds \<Rightarrow> abci_Validator option list \<Rightarrow> int \<Rightarrow> error + abci_Validator list" where
  "ValidatorsDiff b previous maxVal =
     (case GetValidators b maxVal of
        Inl e \<Rightarrow> Inl e
      | Inr new \<Rightarrow>
          (case make_cap maxVal of
             Inl e \<Rightarrow> Inl e
           | Inr diff \<Rightarrow> ValidatorsDiff_loop new previous diff))"

section \<open>Lookup and removal\<close>

text \<open>
  \<open>Get\<close> returns an index and a pointer; the pointer is \<open>None\<close> for nil and otherwise
  holds the record it points to.
\<close>

fun DelegateeBonds_Get_loop :: "nat \<Rightarrow> DelegateeBond list \<Rightarrow> Actor \<Rightarrow> nat \<times> DelegateeBond option" where
  "DelegateeBonds_Get_loop i [] delegatee = (0, None)"
| "DelegateeBonds_Get_loop i (bv # rest) delegatee =
     (if Equals (DelegateeBond.Delegatee bv) delegatee then (i, Some bv)
      else DelegateeBonds_Get_loop (Suc i) rest delegatee)"

definition DelegateeBonds_Get :: "DelegateeBonds \<Rightarrow> Actor \<Rightarrow> nat \<times> DelegateeBond option" where
  "DelegateeBonds_Get b delegatee = DelegateeBonds_Get_loop 0 b delegatee"

text \<open>
  \<open>append(b[:i], b[i+1:]...)\<close> has room in the backing array of \<open>b\<close>, so it moves the
  elements after \<open>i\<close> one place down inside that array and returns a slice one shorter.
  \<open>Remove\<close> is modelled with the collection as the caller's slice sees it after the call,
  the slice returned, and the error (\<open>None\<close> for nil).
\<close>

definition DelegateeBonds_Remove ::
  "DelegateeBonds \<Rightarrow> int \<Rightarrow> DelegateeBonds \<times> DelegateeBonds \<times> error option" where
  "DelegateeBonds_Remove b i =
     (if i < 0 then (b, b, Some CannotRemoveNegativeElement)
      else if i \<ge> int (length b) then (b, b, Some ElementOutOfUpperBound)
      else (take (nat i) b @ drop (nat i + 1) b @ [last b],
            take (nat i) b @ drop (nat i + 1) b, None))"

record DelegatorBond =
  Delegatee :: Actor
  BondTokens :: Decimal

type_synonym DelegatorBonds = "DelegatorBond list"

fun DelegatorBonds_Get_loop :: "nat \<Rightarrow> DelegatorBond list \<Rightarrow> Actor \<Rightarrow> nat \<times> DelegatorBond option" where
  "DelegatorBonds_Get_loop i [] delegatee = (0, None)"
| "DelegatorBonds_Get_loop i (bv # rest) delegatee =
     (if bytes_Equal (Address (DelegatorBond.Delegatee bv)) (Address delegatee) \<and>
         ChainID (DelegatorBond.Delegatee bv) = ChainID delegatee \<and>
         App (DelegatorBond.Delegatee bv) = App delegatee
      then (i, Some bv)
      else DelegatorBonds_Get_loop (Suc i) rest delegatee)"

definition DelegatorBonds_Get :: "DelegatorBonds \<Rightarrow> Actor \<Rightarrow> nat \<times> DelegatorBond option" where
  "DelegatorBonds_Get b delegatee = DelegatorBonds_Get_loop 0 b delegatee"

definition DelegatorBonds_Remove ::
  "DelegatorBonds \<Rightarrow> int \<Rightarrow> DelegatorBonds \<times> DelegatorBonds \<times> error option" where
  "DelegatorBonds_Remove b i =
     (if i < 0 then (b, b, Some CannotRemoveNegativeElement)
      else if i \<ge> int (length b) then (b, b, Some ElementOutOfUpperBound)
      else (take (nat i) b @ drop (nat i + 1) b @ [last b],
            take (nat i) b @ drop (nat i + 1) b, None))"

section \<open>\<open>Get\<close> on a store\<close>

text \<open>
  \<open>Get\<close> returns \<open>&bv\<close>, the address of the loop's variable. To state what a write through
  that pointer can reach, the collections are also modelled in a store. A struct lies in
  a cell of \<open>structs\<close>, the cells below \<open>next_free\<close> being allocated, and a slice of structs
  is the address of its first element and its length. An \<open>Address\<close> is a slice of bytes:
  the struct holds a reference to a byte array, and the arrays lie in \<open>bytes\<close>. Copying a
  struct copies the reference and not the array.

  The loop's variable \<open>bv\<close> is a newly allocated cell \<open>p\<close>; every iteration copies the
  struct \<open>b[i]\<close> into it, and a match returns \<open>p\<close>.
\<close>

record Actor_ref =
  ChainID_ref :: string
  App_ref :: string
  Address_ref :: nat

record DelegateeBond_ref =
  Delegatee_ref :: Actor_ref
  Commission_ref :: Decimal
  ExchangeRate_ref :: Decimal
  TotalBondTokens_ref :: Decimal
  Account_ref :: Actor_ref
  VotingPower_ref :: Decimal

record DelegatorBond_ref =
  Delegator_Delegatee_ref :: Actor_ref
  BondTokens_ref :: Decimal

record 's memory =
  structs :: "nat \<Rightarrow> 's"
  bytes :: "nat \<Rightarrow> byte list"
  next_free :: nat

record slice =
  slice_base :: nat
  slice_len :: nat

text \<open>The values a reader sees: the structs with the bytes of their addresses.\<close>

definition load_Actor :: "'s memory \<Rightarrow> Actor_ref \<Rightarrow> Actor" where
  "load_Actor m a =
     \<lparr>ChainID = ChainID_ref a, App = App_ref a, Address = bytes m (Address_ref a)\<rparr>"

definition load_DelegateeBond :: "'s memory \<Rightarrow> DelegateeBond_ref \<Rightarrow> DelegateeBond" where
  "load_DelegateeBond m x =
     \<lparr>DelegateeBond.Delegatee = load_Actor m (Delegatee_ref x),
      Commission = Commission_ref x, ExchangeRate = ExchangeRate_ref x,
      TotalBondTokens = TotalBondTokens_ref x, Account = load_Actor m (Account_ref x),
      VotingPower = VotingPower_ref x\<rparr>"

definition load_DelegatorBond :: "'s memory \<Rightarrow> DelegatorBond_ref \<Rightarrow> DelegatorBond" where
  "load_DelegatorBond m x =
     \<lparr>DelegatorBond.Delegatee = load_Actor m (Delegator_Delegatee_ref x),
      BondTokens = BondTokens_ref x\<rparr>"

definition DelegateeBonds_elems :: "slice \<Rightarrow> DelegateeBond_ref memory \<Rightarrow> DelegateeBonds" where
  "DelegateeBonds_elems s m =
     map (\<lambda>k. load_DelegateeBond m (structs m (slice_base s + k))) [0 ..< slice_len s]"

definition DelegatorBonds_elems :: "slice \<Rightarrow> DelegatorBond_ref memory \<Rightarrow> DelegatorBonds" where
  "DelegatorBonds_elems s m =
     map (\<lambda>k. load_DelegatorBond m (structs m (slice_base s + k))) [0 ..< slice_len s]"

text \<open>
  The writes a caller can make through a pointer \<open>p\<close> to a struct: \<open>assign\<close> is \<open>*p = v\<close>, and
  with \<open>v\<close> the struct at \<open>p\<close> changed in one field it is an assignment to that field, the
  \<open>Address\<close> reference included. \<open>store_byte\<close> is \<open>a[k] = x\<close> on the byte array an \<open>Address\<close>
  refers to; it panics when \<open>k\<close> is not below the length.
\<close>

definition assign :: "'s memory \<Rightarrow> nat \<Rightarrow> 's \<Rightarrow> 's memory" where
  "assign m p v = m\<lparr>structs := (structs m)(p := v)\<rparr>"

definition store_byte :: "'s memory \<Rightarrow> nat \<Rightarrow> nat \<Rightarrow> byte \<Rightarrow> error + 's memory" where
  "store_byte m a k x =
     (if k < length (bytes m a) then Inr (m\<lparr>bytes := (bytes m)(a := (bytes m a)[k := x])\<rparr>)
      else Inl IndexOutOfRange)"

fun DelegateeBonds_Get_mem_loop ::
  "DelegateeBond_ref memory \<Rightarrow> slice \<Rightarrow> Actor_ref \<Rightarrow> nat \<Rightarrow> nat \<Rightarrow> nat \<Rightarrow>
   DelegateeBond_ref memory \<times> nat \<times> nat option" where
  "DelegateeBonds_Get_mem_loop m s delegatee p i 0 = (m, 0, None)"
| "DelegateeBonds_Get_mem_loop m s delegatee p i (Suc n) =
     (let m' = assign m p (structs m (slice_base s + i))
      in if Equals (load_Actor m' (Delegatee_ref (structs m' p))) (load_Actor m' delegatee)
         then (m', i, Some p)
         else DelegateeBonds_Get_mem_loop m' s delegatee p (Suc i) n)"

definition DelegateeBonds_Get_mem ::
  "DelegateeBond_ref memory \<Rightarrow> slice \<Rightarrow> Actor_ref \<Rightarrow> DelegateeBond_ref memory \<times> nat \<times> nat option" where
  "DelegateeBonds_Get_mem m s delegatee =
     (let p = next_free m; m0 = m\<lparr>next_free := Suc p\<rparr>
      in DelegateeBonds_Get_mem_loop m0 s delegatee p 0 (slice_len s))"

fun DelegatorBonds_Get_mem_loop ::
  "DelegatorBond_ref memory \<Rightarrow> slice \<Rightarrow> Actor_ref \<Rightarrow> nat \<Rightarrow> nat \<Rightarrow> nat \<Rightarrow>
   DelegatorBond_ref memory \<times> nat \<times> nat option" where
  "DelegatorBonds_Get_mem_loop m s delegatee p i 0 = (m, 0, None)"
| "DelegatorBonds_Get_mem_loop m s delegatee p i (Suc n) =
     (let m' = assign m p (structs m (slice_base s + i))
      in if bytes_Equal (bytes m' (Address_ref (Delegator_Delegatee_ref (structs m' p))))
              (bytes m' (Address_ref delegatee)) \<and>
            ChainID_ref (Delegator_Delegatee_ref (structs m' p)) = ChainID_ref delegatee \<and>
            App_ref (Delegator_Delegatee_ref (structs m' p)) = App_ref delegatee
         then (m', i, Some p)
         else DelegatorBonds_Get_mem_loop m' s delegatee p (Suc i) n)"

definition DelegatorBonds_Get_mem ::
  "DelegatorBond_ref memory \<Rightarrow> slice \<Rightarrow> Actor_ref \<Rightarrow> DelegatorBond_ref memory \<times> nat \<times> nat option" where
  "DelegatorBonds_Get_mem m s delegatee =
     (let p = next_free m; m0 = m\<lparr>next_free := Suc p\<rparr>
      in DelegatorBonds_Get_mem_loop m0 s delegatee p 0 (slice_len s))"

text \<open>
  \<open>p.Delegatee.Address[k] = x\<close> for a pointer \<open>p\<close> to a \<open>DelegateeBond\<close>, followed by a reading
  of the collection.
\<close>

definition store_Delegatee_Address_byte ::
  "DelegateeBond_ref memory \<Rightarrow> nat \<Rightarrow> nat \<Rightarrow> byte \<Rightarrow> error + DelegateeBond_ref memory" where
  "store_Delegatee_Address_byte m p k x =
     store_byte m (Address_ref (Delegatee_ref (structs m p))) k x"

definition store_Delegator_Address_byte ::
  "DelegatorBond_ref memory \<Rightarrow> nat \<Rightarrow> nat \<Rightarrow> byte \<Rightarrow> error + DelegatorBond_ref memory" where
  "store_Delegator_Address_byte m p k x =
     store_byte m (Address_ref (Delegator_Delegatee_ref (structs m p))) k x"

section \<open>Auxiliary notions for the proofs\<close>

text \<open>\<open>precedes x y\<close> is \<open>Less\<close> on a collection holding \<open>x\<close> at \<open>i\<close> and \<open>y\<close> at \<open>j\<close>.\<close>

definition precedes :: "DelegateeBond \<Rightarrow> DelegateeBond \<Rightarrow> bool" where
  "precedes x y = Less [x, y] 0 1"

text \<open>
  One pass of the inner loop of the insertion sort, on the sorted prefix in reverse: the
  new element moves past every element it precedes.
\<close>

fun bubble :: "DelegateeBond \<Rightarrow> DelegateeBond list \<Rightarrow> DelegateeBond list" where
  "bubble x [] = [x]"
| "bubble x (y # ys) = (if precedes x y then y # bubble x ys else x # y # ys)"

text \<open>
  Two candidate records with the same contents: the same identities and, in every
  \<open>Decimal\<close> field, the same number.
\<close>

definition same_fields :: "DelegateeBond \<Rightarrow> DelegateeBond \<Rightarrow> bool" where
  "same_fields x y =
     (DelegateeBond.Delegatee x = DelegateeBond.Delegatee y \<and>
      Equal (Commission x) (Commission y) \<and>
      Equal (ExchangeRate x) (ExchangeRate y) \<and>
      Equal (TotalBondTokens x) (TotalBondTokens y) \<and>
      Account x = Account y \<and>
      Equal (VotingPower x) (VotingPower y))"

text \<open>
  Example data. \<open>dec r x\<close> is the number \<open>x\<close> held in a \<open>Decimal\<close> of representation \<open>r\<close>. A
  candidate on a chain holds the given number of bond tokens at rate 1 and the given
  \<open>Decimal\<close> as its stored voting power.
\<close>

definition dec :: "nat \<Rightarrow> rat \<Rightarrow> Decimal" where
  "dec r x = \<lparr>rep = r, val = x\<rparr>"

definition actor :: "string \<Rightarrow> Actor" where
  "actor c = \<lparr>ChainID = c, App = ''stake'', Address = map (\<lambda>ch. of_nat (of_char ch)) c\<rparr>"

definition candidate :: "string \<Rightarrow> rat \<Rightarrow> Decimal \<Rightarrow> DelegateeBond" where
  "candidate c tokens vp =
     \<lparr>DelegateeBond.Delegatee = actor c, Commission = dec 0 0, ExchangeRate = dec 0 1,
      TotalBondTokens = dec 0 tokens, Account = actor ''bank'', VotingPower = vp\<rparr>"

definition delegation :: "string \<Rightarrow> rat \<Rightarrow> DelegatorBond" where
  "delegation c tokens = \<lparr>DelegatorBond.Delegatee = actor c, BondTokens = dec 0 tokens\<rparr>"

text \<open>
  A store with two candidates (two delegations) at the cells 0 and 1, their addresses in
  the byte arrays 0 and 1 and \<open>Account\<close> in the array 2, and an actor whose address lies
  in the array 3.
\<close>

definition actor_ref :: "string \<Rightarrow> nat \<Rightarrow> Actor_ref" where
  "actor_ref c a = \<lparr>ChainID_ref = c, App_ref = ''stake'', Address_ref = a\<rparr>"

definition candidate_ref :: "string \<Rightarrow> nat \<Rightarrow> DelegateeBond_ref" where
  "candidate_ref c a =
     \<lparr>Delegatee_ref = actor_ref c a, Commission_ref = dec 0 0, ExchangeRate_ref = dec 0 1,
      TotalBondTokens_ref = dec 0 1, Account_ref = actor_ref ''bank'' 2,
      VotingPower_ref = dec 0 1\<rparr>"

definition delegation_ref :: "string \<Rightarrow> nat \<Rightarrow> DelegatorBond_ref" where
  "delegation_ref c a = \<lparr>Delegator_Delegatee_ref = actor_ref c a, BondTokens_ref = dec 0 1\<rparr>"

definition example_bytes :: "nat \<Rightarrow> byte list" where
  "example_bytes a =
     (if a = 0 then [1, 2] else if a = 1 then [3, 4] else if a = 2 then [9] else [3, 4])"

definition candidates_memory :: "DelegateeBond_ref memory" where
  "candidates_memory =
     \<lparr>structs = (\<lambda>a. if a = 0 then candidate_ref ''a'' 0 else candidate_ref ''b'' 1),
      bytes = example_bytes, next_free = 2\<rparr>"

definition delegations_memory :: "DelegatorBond_ref memory" where
  "delegations_memory =
     \<lparr>structs = (\<lambda>a. if a = 0 then delegation_ref ''a'' 0 else delegation_ref ''b'' 1),
      bytes = example_bytes, next_free = 2\<rparr>"

definition both_cells :: slice where
  "both_cells = \<lparr>slice_base = 0, slice_len = 2\<rparr>"

section \<open>The sort\<close>

lemma Less_precedes: "Less b i j = precedes (b ! i) (b ! j)"
  by (simp add: Less_def precedes_def)

lemma precedes_val: "precedes x y \<Longrightarrow> val (VotingPower y) \<le> val (VotingPower x)"
  by (auto simp: precedes_def Less_def Let_def GT_def split: if_splits)

lemma not_precedes_val: "\<not> precedes x y \<Longrightarrow> val (VotingPower x) \<le> val (VotingPower y)"
  by (auto simp: precedes_def Less_def Let_def GT_def split: if_splits)

lemma length_bubble: "length (bubble x ys) = Suc (length ys)"
  by (induction ys) auto

lemma mset_bubble: "mset (bubble x ys) = add_mset x (mset ys)"
  by (induction ys) auto

lemma set_bubble: "set (bubble x ys) = insert x (set ys)"
  by (induction ys) auto

lemma ascending_bubble:
  "sorted_wrt (\<lambda>a c. val (VotingPower a) \<le> val (VotingPower c)) ys \<Longrightarrow>
   sorted_wrt (\<lambda>a c. val (VotingPower a) \<le> val (VotingPower c)) (bubble x ys)"
proof (induction ys)
  case Nil
  then show ?case by simp
next
  case (Cons y ys)
  show ?case
  proof (cases "precedes x y")
    case True
    then have "val (VotingPower y) \<le> val (VotingPower x)" by (rule precedes_val)
    with Cons True show ?thesis by (auto simp: set_bubble)
  next
    case False
    then have "val (VotingPower x) \<le> val (VotingPower y)" by (rule not_precedes_val)
    with Cons False show ?thesis by fastforce
  qed
qed

lemma inner_bubble:
  "j < length b \<Longrightarrow>
   insertionSort_inner b j = rev (bubble (b ! j) (rev (take j b))) @ drop (Suc j) b"
proof (induction j arbitrary: b)
  case 0
  then show ?case by (cases b) auto
next
  case (Suc j)
  let ?x = "b ! Suc j"
  have tk: "take (Suc j) b = take j b @ [b ! j]"
    using Suc.prems by (simp add: take_Suc_conv_app_nth)
  show ?case
  proof (cases "Less b (Suc j) j")
    case True
    let ?b' = "Swap b (Suc j) j"
    have len: "j < length ?b'" using Suc.prems by (simp add: Swap_def)
    have a: "?b' ! j = ?x" using Suc.prems by (simp add: Swap_def)
    have b: "take j ?b' = take j b" by (simp add: Swap_def)
    have "drop (Suc j) ?b' = (drop (Suc j) b)[0 := b ! j]"
      by (simp add: Swap_def drop_update_swap)
    also have "drop (Suc j) b = ?x # drop (Suc (Suc j)) b"
      using Suc.prems by (simp add: Cons_nth_drop_Suc)
    finally have c: "drop (Suc j) ?b' = b ! j # drop (Suc (Suc j)) b" by simp
    have "insertionSort_inner b (Suc j) = insertionSort_inner ?b' j"
      using True by simp
    also have "\<dots> = rev (bubble ?x (rev (take j b))) @ b ! j # drop (Suc (Suc j)) b"
      using Suc.IH [OF len] a b c by simp
    finally show ?thesis using True by (simp add: tk Less_precedes)
  next
    case False
    have "b = take (Suc j) b @ ?x # drop (Suc (Suc j)) b"
      using Suc.prems by (simp add: Cons_nth_drop_Suc)
    with False show ?thesis by (simp add: tk Less_precedes)
  qed
qed

lemma length_foldl_bubble: "length (foldl (\<lambda>acc x. bubble x acc) acc xs) = length acc + length xs"
  by (induction xs arbitrary: acc) (auto simp: length_bubble)

lemma foldl_inner:
  "n \<le> length b \<Longrightarrow>
   foldl insertionSort_inner b [1 ..< n] =
     rev (foldl (\<lambda>acc x. bubble x acc) [] (take n b)) @ drop n b"
proof (induction n)
  case 0
  then show ?case by simp
next
  case (Suc n)
  let ?A = "foldl (\<lambda>acc x. bubble x acc) [] (take n b)"
  let ?b' = "rev ?A @ drop n b"
  have lenA: "length ?A = n"
    using Suc.prems by (simp add: length_foldl_bubble)
  have tk: "take (Suc n) b = take n b @ [b ! n]"
    using Suc.prems by (simp add: take_Suc_conv_app_nth)
  have step: "insertionSort_inner ?b' n = rev (bubble (b ! n) ?A) @ drop (Suc n) b"
  proof -
    have "n < length ?b'" using Suc.prems lenA by simp
    then have e0: "insertionSort_inner ?b' n =
        rev (bubble (?b' ! n) (rev (take n ?b'))) @ drop (Suc n) ?b'"
      by (rule inner_bubble)
    have e1: "?b' ! n = b ! n" using lenA Suc.prems by (simp add: nth_append)
    have e2: "take n ?b' = rev ?A" using lenA by simp
    have e3: "drop (Suc n) ?b' = drop (Suc n) b" using lenA by simp
    show ?thesis by (simp only: e0 e1 e2 e3 rev_rev_ident)
  qed
  show ?case
  proof (cases n)
    case 0
    with Suc.prems show ?thesis by (cases b) auto
  next
    case (Suc m)
    then have "[1 ..< Suc n] = [1 ..< n] @ [n]" by simp
    then have "foldl insertionSort_inner b [1 ..< Suc n] =
        insertionSort_inner (foldl insertionSort_inner b [1 ..< n]) n" by simp
    also have "\<dots> = insertionSort_inner ?b' n" using Suc.IH Suc.prems by simp
    finally show ?thesis using step by (simp add: tk)
  qed
qed

lemma Sort_bubble: "Sort b = rev (foldl (\<lambda>acc x. bubble x acc) [] b)"
  using foldl_inner [of "length b" b] by (simp add: Sort_def insertionSort_def Len_def)

lemma ascending_foldl_bubble:
  "sorted_wrt (\<lambda>a c. val (VotingPower a) \<le> val (VotingPower c)) acc \<Longrightarrow>
   sorted_wrt (\<lambda>a c. val (VotingPower a) \<le> val (VotingPower c))
     (foldl (\<lambda>acc x. bubble x acc) acc xs)"
  by (induction xs arbitrary: acc) (auto simp: ascending_bubble)

lemma mset_foldl_bubble: "mset (foldl (\<lambda>acc x. bubble x acc) acc xs) = mset acc + mset xs"
  by (induction xs arbitrary: acc) (auto simp: mset_bubble)

lemma mset_Sort: "mset (Sort b) = mset b"
  by (simp add: Sort_bubble mset_foldl_bubble)

lemma length_Sort: "length (Sort b) = length b"
  using mset_Sort [of b] by (metis size_mset)

lemma descending_Sort:
  "sorted_wrt (\<lambda>a c. val (VotingPower c) \<le> val (VotingPower a)) (Sort b)"
  using ascending_foldl_bubble [of "[]" b] by (simp add: Sort_bubble sorted_wrt_rev)

section \<open>What \<open>UpdateVotingPower\<close> computes\<close>

lemma UpdateVotingPower_floor_backing:
  "fst (UpdateVotingPower_floor minValBond xs (b, bv)) = b"
  by (induction xs arbitrary: bv) (simp_all add: Let_def)

lemma UpdateVotingPower_truncate_eq:
  "fst (UpdateVotingPower_truncate maxVal i xs (b, bv, t)) = b \<and>
   val (snd (snd (UpdateVotingPower_truncate maxVal i xs (b, bv, t)))) =
     val t + sum_list (map (\<lambda>x. val (VotingPower x)) (take (nat (maxVal + 1) - i) xs))"
proof (induction xs arbitrary: i bv t)
  case Nil
  then show ?case by simp
next
  case (Cons e rest)
  show ?case
  proof (cases "int i \<le> maxVal")
    case True
    then have "nat (maxVal + 1) - i = Suc (nat (maxVal + 1) - Suc i)" by linarith
    with True Cons show ?thesis by (simp add: add.assoc Add_def)
  next
    case False
    then have "nat (maxVal + 1) - i = 0" "nat (maxVal + 1) - Suc i = 0" by linarith+
    with False Cons show ?thesis by (simp add: Let_def)
  qed
qed

text \<open>
  The backing collection after the call is the sorted input, with every \<open>VotingPower\<close> as
  it was stored before the call, and the total is the sum of the stored powers at the
  ranks \<open>0 .. maxVal\<close>.
\<close>

lemma UpdateVotingPower_eq:
  "fst (UpdateVotingPower minValBond maxVal b) = Sort b \<and>
   val (snd (UpdateVotingPower minValBond maxVal b)) =
     sum_list (map (\<lambda>x. val (VotingPower x)) (take (nat (maxVal + 1)) (Sort b)))"
proof -
  obtain b1 bv1 where f: "UpdateVotingPower_floor minValBond b (b, None) = (b1, bv1)"
    by (cases "UpdateVotingPower_floor minValBond b (b, None)")
  have b1: "b1 = b"
    using UpdateVotingPower_floor_backing [of minValBond b b None] f by simp
  obtain b2 bv2 t where
    tr: "UpdateVotingPower_truncate maxVal 0 (Sort b) (Sort b, None, \<lparr>rep = 0, val = 0\<rparr>) = (b2, bv2, t)"
    by (cases "UpdateVotingPower_truncate maxVal 0 (Sort b) (Sort b, None, \<lparr>rep = 0, val = 0\<rparr>)")
  have "b2 = Sort b \<and>
      val t = sum_list (map (\<lambda>x. val (VotingPower x)) (take (nat (maxVal + 1)) (Sort b)))"
    using UpdateVotingPower_truncate_eq [of maxVal 0 "Sort b" "Sort b" None "\<lparr>rep = 0, val = 0\<rparr>"] tr
    by simp
  with f b1 tr show ?thesis
    by (simp add: UpdateVotingPower_def Let_def)
qed

text \<open>
  Whatever the representations, the call leaves a permutation of the input in which the
  numbers of the stored voting powers never increase.
\<close>

lemma UpdateVotingPower_descending:
  "mset (fst (UpdateVotingPower minValBond maxVal b)) = mset b \<and>
   sorted_wrt (\<lambda>a c. val (VotingPower c) \<le> val (VotingPower a))
     (fst (UpdateVotingPower minValBond maxVal b))"
  by (simp add: UpdateVotingPower_eq mset_Sort descending_Sort)

text \<open>
  C1. The claim: after \<open>UpdateVotingPower\<close>, every element whose
  \<open>TotalBondTokens * ExchangeRate\<close> is below the minimum bond has \<open>VotingPower\<close> zero in the
  backing collection. The code assigns the zero to the loop's copy \<open>bv\<close>: with a minimum
  bond of 5, a candidate holding one bond token at rate 1 and a stored voting power of 10
  still has voting power 10 after the call, and that power is counted in the total.
\<close>

theorem C1_floor_assigned_to_copy:
  "fst (UpdateVotingPower (dec 0 5) 10 [candidate ''a'' 1 (dec 1 10)])
     = [candidate ''a'' 1 (dec 1 10)] \<and>
   val (snd (UpdateVotingPower (dec 0 5) 10 [candidate ''a'' 1 (dec 1 10)])) = 10 \<and>
   LT (Mul (TotalBondTokens (candidate ''a'' 1 (dec 1 10)))
           (ExchangeRate (candidate ''a'' 1 (dec 1 10)))) (dec 0 5) \<and>
   val (VotingPower (candidate ''a'' 1 (dec 1 10))) = 10"
  by code_simp

text \<open>
  C2. The claim: of \<open>N > maxVal\<close> candidates at or above the floor, exactly \<open>maxVal\<close> keep a
  nonzero \<open>VotingPower\<close> in the backing collection. With \<open>maxVal = 1\<close>, a minimum bond of 5
  and three candidates whose bonds are worth 30, 20 and 10, the call leaves the stored
  powers as they were: all zero when they were zero before, and all three nonzero when
  they held 30, 20 and 10.
\<close>

theorem C2_truncation_assigned_to_copy:
  "map (\<lambda>bv. val (VotingPower bv))
     (fst (UpdateVotingPower (dec 0 5) 1
        [candidate ''a'' 30 Zero, candidate ''b'' 20 Zero, candidate ''c'' 10 Zero]))
     = [0, 0, 0] \<and>
   map (\<lambda>bv. val (VotingPower bv))
     (fst (UpdateVotingPower (dec 0 5) 1
        [candidate ''a'' 30 (dec 1 30), candidate ''b'' 20 (dec 2 20),
         candidate ''c'' 10 (dec 3 10)]))
     = [30, 20, 10]"
  by code_simp

text \<open>
  C3. The claim: the call returns the sum of the voting powers that survive floor and
  truncation, 60 for bonds worth 30, 30 and 10 with a minimum bond of 5 and \<open>maxVal = 2\<close>,
  and the candidate worth 10 ends with power zero. The code sums the stored powers at
  the ranks 0 to \<open>maxVal\<close> inclusive: it returns 0 when the stored powers are zero, and
  when the stored powers are 30, 30 and 10, each in a \<open>Decimal\<close> of its own, it returns
  70, the third candidate keeping its 10.
\<close>

theorem C3_total_of_stored_powers:
  "val (snd (UpdateVotingPower (dec 0 5) 2
     [candidate ''c'' 10 Zero, candidate ''b'' 30 Zero, candidate ''a'' 30 Zero])) = 0 \<and>
   val (snd (UpdateVotingPower (dec 0 5) 2
     [candidate ''c'' 10 (dec 1 10), candidate ''b'' 30 (dec 2 30),
      candidate ''a'' 30 (dec 3 30)])) = 70 \<and>
   fst (UpdateVotingPower (dec 0 5) 2
     [candidate ''c'' 10 (dec 1 10), candidate ''b'' 30 (dec 2 30),
      candidate ''a'' 30 (dec 3 30)])
     = [candidate ''b'' 30 (dec 2 30), candidate ''a'' 30 (dec 3 30),
        candidate ''c'' 10 (dec 1 10)]"
  by code_simp

section \<open>The order of \<open>Less\<close>\<close>

lemma bytes_Compare_less: "(bytes_Compare a b = - 1) = (a < b)"
  by (induction a b rule: bytes_Compare.induct) auto

text \<open>
  What \<open>Less\<close> decides: the element with the greater number precedes; two voting powers
  that are the same \<open>Decimal\<close> are ordered by identity; two voting powers of the same number
  in different \<open>Decimal\<close>s are not ordered either way, whatever the identities.
\<close>

lemma Less_cases:
  "(val (VotingPower (b ! j)) < val (VotingPower (b ! i)) \<longrightarrow> Less b i j) \<and>
   (VotingPower (b ! i) = VotingPower (b ! j) \<longrightarrow>
      Less b i j =
        (let d1 = DelegateeBond.Delegatee (b ! i); d2 = DelegateeBond.Delegatee (b ! j)
         in ChainID d1 < ChainID d2 \<or>
            (ChainID d1 = ChainID d2 \<and>
             (App d1 < App d2 \<or> (App d1 = App d2 \<and> Address d1 < Address d2))))) \<and>
   (VotingPower (b ! i) \<noteq> VotingPower (b ! j) \<and>
    Equal (VotingPower (b ! i)) (VotingPower (b ! j)) \<longrightarrow> \<not> Less b i j \<and> \<not> Less b j i)"
  by (auto simp: Less_def Let_def GT_def Equal_def bytes_Compare_less)

text \<open>
  C4. The claim: \<open>Less\<close> is a strict total order in which the greater voting power
  precedes and equal voting powers are ordered by ascending identity, and after
  \<open>UpdateVotingPower\<close> the collection is sorted in exactly this order. The code tests the
  tie with \<open>vp1 != vp2\<close> on the structs: two candidates ''b'' and ''a'' whose voting
  powers are the number 30 in two different \<open>Decimal\<close>s are not \<open>Less\<close> either way, and the
  call leaves them in the order ''b'', ''a''. The tie-break is reached only when the two
  voting powers are the same \<open>Decimal\<close>: then ''a'' is \<open>Less\<close> than ''b'' and the call
  puts ''a'' first.
\<close>

theorem C4_tie_break_needs_same_representation:
  "Equal (VotingPower (candidate ''b'' 30 (dec 2 30))) (VotingPower (candidate ''a'' 30 (dec 1 30))) \<and>
   ChainID (DelegateeBond.Delegatee (candidate ''a'' 30 (dec 1 30)))
     < ChainID (DelegateeBond.Delegatee (candidate ''b'' 30 (dec 2 30))) \<and>
   \<not> Less [candidate ''b'' 30 (dec 2 30), candidate ''a'' 30 (dec 1 30)] 1 0 \<and>
   \<not> Less [candidate ''b'' 30 (dec 2 30), candidate ''a'' 30 (dec 1 30)] 0 1 \<and>
   fst (UpdateVotingPower (dec 0 5) 2
     [candidate ''b'' 30 (dec 2 30), candidate ''a'' 30 (dec 1 30)])
     = [candidate ''b'' 30 (dec 2 30), candidate ''a'' 30 (dec 1 30)] \<and>
   Less [candidate ''b'' 30 (dec 1 30), candidate ''a'' 30 (dec 1 30)] 1 0 \<and>
   fst (UpdateVotingPower (dec 0 5) 2
     [candidate ''b'' 30 (dec 1 30), candidate ''a'' 30 (dec 1 30)])
     = [candidate ''a'' 30 (dec 1 30), candidate ''b'' 30 (dec 1 30)]"
  by code_simp

text \<open>
  Two inputs with the same contents, position by position, give the same numbers: the
  sequence of the voting powers after the call and the total do not depend on how the
  \<open>Decimal\<close>s are represented. The order of candidates of equal power does.
\<close>

lemma descending_unique:
  fixes xs ys :: "rat list"
  assumes "sorted_wrt (\<lambda>a c. c \<le> a) xs" "sorted_wrt (\<lambda>a c. c \<le> a) ys" "mset xs = mset ys"
  shows "xs = ys"
proof -
  have "sorted (rev xs)" "sorted (rev ys)"
    using assms(1,2) by (simp_all add: sorted_wrt_rev)
  moreover have "mset (rev xs) = mset (rev ys)" using assms(3) by simp
  ultimately have "rev xs = rev ys"
    by (metis properties_for_sort)
  then show ?thesis by simp
qed

lemma same_fields_numbers:
  "list_all2 same_fields b1 b2 \<Longrightarrow>
   map (\<lambda>x. val (VotingPower x)) b1 = map (\<lambda>x. val (VotingPower x)) b2"
  by (induction rule: list_all2_induct) (simp_all add: same_fields_def Equal_def)

lemma UpdateVotingPower_numbers_determined:
  assumes "list_all2 same_fields b1 b2"
  shows "map (\<lambda>x. val (VotingPower x)) (fst (UpdateVotingPower minValBond maxVal b1))
       = map (\<lambda>x. val (VotingPower x)) (fst (UpdateVotingPower minValBond maxVal b2)) \<and>
     val (snd (UpdateVotingPower minValBond maxVal b1))
       = val (snd (UpdateVotingPower minValBond maxVal b2))"
proof -
  let ?f = "\<lambda>x. val (VotingPower x)"
  have d: "sorted_wrt (\<lambda>a c. c \<le> a) (map ?f (Sort b))" for b
    using descending_Sort [of b] by (simp add: sorted_wrt_map)
  have "mset (map ?f (Sort b1)) = mset (map ?f b1)"
    by (simp add: mset_Sort)
  also have "\<dots> = mset (map ?f b2)"
    using same_fields_numbers [OF assms] by simp
  also have "\<dots> = mset (map ?f (Sort b2))"
    by (simp add: mset_Sort)
  finally have eq: "map ?f (Sort b1) = map ?f (Sort b2)"
    using d [of b1] d [of b2] by (intro descending_unique)
  have "sum_list (map ?f (take n (Sort b1))) = sum_list (map ?f (take n (Sort b2)))" for n
    using eq by (metis take_map)
  with eq show ?thesis
    by (simp add: UpdateVotingPower_eq)
qed

text \<open>
  C7. The claim: two input collections that are equal element by element, in the same
  order, give identical output collections and equal totals. Two collections hold the
  candidates ''b'' and ''a'' in this order, every field of the one equal to the field of
  the other, all stored voting powers zero: in the first both voting powers are the
  package's \<open>Zero\<close>, in the second each zero is a \<open>Decimal\<close> of its own. The call
  puts ''a'' before ''b'' in the first and leaves ''b'' before ''a'' in the second, so
  the outputs differ; the totals are equal.
\<close>

theorem C7_output_order_depends_on_representation:
  "list_all2 same_fields
     [candidate ''b'' 30 Zero, candidate ''a'' 30 Zero]
     [candidate ''b'' 30 (dec 1 0), candidate ''a'' 30 (dec 2 0)] \<and>
   map (\<lambda>bv. ChainID (DelegateeBond.Delegatee bv))
     (fst (UpdateVotingPower (dec 0 5) 2 [candidate ''b'' 30 Zero, candidate ''a'' 30 Zero]))
     = [''a'', ''b''] \<and>
   map (\<lambda>bv. ChainID (DelegateeBond.Delegatee bv))
     (fst (UpdateVotingPower (dec 0 5) 2
        [candidate ''b'' 30 (dec 1 0), candidate ''a'' 30 (dec 2 0)]))
     = [''b'', ''a''] \<and>
   \<not> list_all2 same_fields
     (fst (UpdateVotingPower (dec 0 5) 2 [candidate ''b'' 30 Zero, candidate ''a'' 30 Zero]))
     (fst (UpdateVotingPower (dec 0 5) 2
        [candidate ''b'' 30 (dec 1 0), candidate ''a'' 30 (dec 2 0)])) \<and>
   val (snd (UpdateVotingPower (dec 0 5) 2 [candidate ''b'' 30 Zero, candidate ''a'' 30 Zero]))
     = val (snd (UpdateVotingPower (dec 0 5) 2
        [candidate ''b'' 30 (dec 1 0), candidate ''a'' 30 (dec 2 0)]))"
  by code_simp

section \<open>The active set\<close>

lemma GetValidators_loop_eq:
  "GetValidators_loop b validators =
     validators @ map Validator (takeWhile (\<lambda>bv. \<not> Equal (VotingPower bv) Zero) b)"
  by (induction b arbitrary: validators) auto

lemma GetValidators_eq:
  "GetValidators b maxVal =
     (if maxVal < 0 then Inl MakeSliceCapOutOfRange
      else Inr (map Validator (takeWhile (\<lambda>bv. \<not> Equal (VotingPower bv) Zero) b)))"
  by (simp add: GetValidators_def make_cap_def GetValidators_loop_eq)

lemma length_takeWhile_filter: "length (takeWhile P xs) \<le> length (filter P xs)"
  by (induction xs) auto

text \<open>
  C6, as the code has it. For every collection, sorted or not, and every \<open>maxVal \<ge> 0\<close>,
  \<open>GetValidators\<close> returns the (public key, power) pairs of the leading elements with
  nonzero voting power, in order, stopping at the first element whose voting power is
  zero. \<open>maxVal\<close> is the capacity the result starts with and does not bound its length:
  the result has as many entries as there are leading nonzero elements, at most the
  number of nonzero elements of the collection. A negative \<open>maxVal\<close> panics.
\<close>

theorem GetValidators_leading_nonzero:
  "(maxVal < 0 \<longrightarrow> GetValidators b maxVal = Inl MakeSliceCapOutOfRange) \<and>
   (0 \<le> maxVal \<longrightarrow>
      (\<exists>validators.
         GetValidators b maxVal = Inr validators \<and>
         validators = map Validator (takeWhile (\<lambda>bv. \<not> Equal (VotingPower bv) Zero) b) \<and>
         length validators \<le> length (filter (\<lambda>bv. \<not> Equal (VotingPower bv) Zero) b) \<and>
         length validators \<le> length b))"
  by (simp add: GetValidators_eq length_takeWhile_filter length_takeWhile_le)

theorem GetValidators_leading_nonzero_witness:
  "GetValidators [candidate ''a'' 30 (dec 1 30), candidate ''b'' 20 (dec 1 0),
                  candidate ''c'' 10 (dec 1 10)] 2
     = Inr [\<lparr>PubKey = [97], Power = 30\<rparr>] \<and>
   GetValidators [candidate ''a'' 30 (dec 1 30)] (- 1) = Inl MakeSliceCapOutOfRange"
proof -
  have "GetValidators [candidate ''a'' 30 (dec 1 30), candidate ''b'' 20 (dec 1 0),
                       candidate ''c'' 10 (dec 1 10)] 2
     = Inr (map Validator (takeWhile (\<lambda>bv. \<not> Equal (VotingPower bv) Zero)
         [candidate ''a'' 30 (dec 1 30), candidate ''b'' 20 (dec 1 0),
          candidate ''c'' 10 (dec 1 10)]))"
    using GetValidators_leading_nonzero
      [of 2 "[candidate ''a'' 30 (dec 1 30), candidate ''b'' 20 (dec 1 0),
              candidate ''c'' 10 (dec 1 10)]"]
    by auto
  moreover have "map Validator (takeWhile (\<lambda>bv. \<not> Equal (VotingPower bv) Zero)
         [candidate ''a'' 30 (dec 1 30), candidate ''b'' 20 (dec 1 0),
          candidate ''c'' 10 (dec 1 10)])
      = [\<lparr>PubKey = [97], Power = 30\<rparr>]"
    by code_simp
  moreover have "GetValidators [candidate ''a'' 30 (dec 1 30)] (- 1) = Inl MakeSliceCapOutOfRange"
    using GetValidators_leading_nonzero [of "- 1" "[candidate ''a'' 30 (dec 1 30)]"] by simp
  ultimately show ?thesis by simp
qed

text \<open>
  C6 as stated fails: a collection sorted by descending voting power with three nonzero
  elements gives three entries for \<open>maxVal = 2\<close>.
\<close>

theorem GetValidators_exceeds_maxVal:
  "map (val \<circ> VotingPower)
     [candidate ''a'' 30 (dec 1 30), candidate ''b'' 20 (dec 1 20), candidate ''c'' 10 (dec 1 10)]
     = [30, 20, 10] \<and>
   GetValidators [candidate ''a'' 30 (dec 1 30), candidate ''b'' 20 (dec 1 20),
                  candidate ''c'' 10 (dec 1 10)] 2
     = Inr [\<lparr>PubKey = [97], Power = 30\<rparr>, \<lparr>PubKey = [98], Power = 20\<rparr>,
            \<lparr>PubKey = [99], Power = 10\<rparr>] \<and>
   \<not> int (length [\<lparr>PubKey = [97], Power = 30\<rparr>, \<lparr>PubKey = [98], Power = 20\<rparr>,
            \<lparr>PubKey = [99::byte], Power = 10 :: 64 word\<rparr>]) \<le> 2"
  by code_simp

section \<open>The difference to the previous set\<close>

lemma getValidatorPower_find:
  "getValidatorPower new pubKey =
     (case find (\<lambda>v. PubKey v = pubKey) new of None \<Rightarrow> 0 | Some v \<Rightarrow> Power v)"
  by (induction new) (auto simp: bytes_Equal_def)

lemma getValidatorPower_absent:
  "pubKey \<notin> PubKey ` set new \<Longrightarrow> getValidatorPower new pubKey = 0"
  by (induction new) (auto simp: bytes_Equal_def)

lemma ValidatorsDiff_loop_eq:
  "ValidatorsDiff_loop new (map Some previous) diff =
     Inr (diff @
          map (\<lambda>prev. \<lparr>PubKey = PubKey prev, Power = getValidatorPower new (PubKey prev)\<rparr>)
            (filter (\<lambda>prev. getValidatorPower new (PubKey prev) \<noteq> Power prev) previous))"
  by (induction previous arbitrary: diff) (auto simp: Let_def)

text \<open>
  C5. For \<open>maxVal \<ge> 0\<close> and a previous set without nil entries, \<open>ValidatorsDiff\<close> returns, in
  the order of the previous set, one record (public key, new power) for each previous
  entry whose power in the new active set differs from its previous power, and nothing
  for the others; the power in the new set is that of the first entry with the key, and
  0 when the key is absent. A previous entry with a nonzero power whose key is absent
  from the new set gives (key, 0). Every key in the result is a key of the previous set.
\<close>

theorem ValidatorsDiff_changed_previous:
  "0 \<le> maxVal \<Longrightarrow>
   \<exists>new diff.
     GetValidators b maxVal = Inr new \<and>
     ValidatorsDiff b (map Some previous) maxVal = Inr diff \<and>
     diff =
       map (\<lambda>prev. \<lparr>PubKey = PubKey prev, Power = getValidatorPower new (PubKey prev)\<rparr>)
         (filter (\<lambda>prev. getValidatorPower new (PubKey prev) \<noteq> Power prev) previous) \<and>
     (\<forall>pubKey. getValidatorPower new pubKey =
        (case find (\<lambda>v. PubKey v = pubKey) new of None \<Rightarrow> 0 | Some v \<Rightarrow> Power v)) \<and>
     (\<forall>prev \<in> set previous.
        PubKey prev \<notin> PubKey ` set new \<and> Power prev \<noteq> 0 \<longrightarrow>
          \<lparr>PubKey = PubKey prev, Power = 0\<rparr> \<in> set diff) \<and>
     PubKey ` set diff \<subseteq> PubKey ` set previous"
proof -
  assume mv: "0 \<le> maxVal"
  let ?new = "map Validator (takeWhile (\<lambda>bv. \<not> Equal (VotingPower bv) Zero) b)"
  let ?diff = "map (\<lambda>prev. \<lparr>PubKey = PubKey prev, Power = getValidatorPower ?new (PubKey prev)\<rparr>)
         (filter (\<lambda>prev. getValidatorPower ?new (PubKey prev) \<noteq> Power prev) previous)"
  have g: "GetValidators b maxVal = Inr ?new"
    using mv by (simp add: GetValidators_eq)
  have d: "ValidatorsDiff b (map Some previous) maxVal = Inr ?diff"
    using mv by (simp add: ValidatorsDiff_def g make_cap_def ValidatorsDiff_loop_eq)
  have f: "\<forall>pubKey. getValidatorPower ?new pubKey =
        (case find (\<lambda>v. PubKey v = pubKey) ?new of None \<Rightarrow> 0 | Some v \<Rightarrow> Power v)"
    by (simp add: getValidatorPower_find)
  have r: "\<forall>prev \<in> set previous.
        PubKey prev \<notin> PubKey ` set ?new \<and> Power prev \<noteq> 0 \<longrightarrow>
          \<lparr>PubKey = PubKey prev, Power = 0\<rparr> \<in> set ?diff"
  proof (intro ballI impI)
    fix prev assume p: "prev \<in> set previous"
      and a: "PubKey prev \<notin> PubKey ` set ?new \<and> Power prev \<noteq> 0"
    then have z: "getValidatorPower ?new (PubKey prev) = 0"
      by (intro getValidatorPower_absent) simp
    with a have "getValidatorPower ?new (PubKey prev) \<noteq> Power prev" by simp
    with p z show "\<lparr>PubKey = PubKey prev, Power = 0\<rparr> \<in> set ?diff"
      by (force simp: image_iff)
  qed
  have s: "PubKey ` set ?diff \<subseteq> PubKey ` set previous"
    by auto
  from g d f r s show ?thesis by blast
qed


theorem ValidatorsDiff_changed_previous_witness:
  "ValidatorsDiff [candidate ''A'' 10 (dec 1 10)]
     (map Some [\<lparr>PubKey = [65], Power = 10\<rparr>, \<lparr>PubKey = [66], Power = 5\<rparr>]) 2
     = Inr [\<lparr>PubKey = [66], Power = 0\<rparr>]"
proof -
  let ?b = "[candidate ''A'' 10 (dec 1 10)]"
  let ?previous = "[\<lparr>PubKey = [65], Power = 10\<rparr>, \<lparr>PubKey = [66 :: byte], Power = 5 :: 64 word\<rparr>]"
  have mv: "(0::int) \<le> 2" by simp
  from ValidatorsDiff_changed_previous [OF mv, of ?b ?previous]
  obtain new diff where
    g: "GetValidators ?b 2 = Inr new" and
    d: "ValidatorsDiff ?b (map Some ?previous) 2 = Inr diff" and
    e: "diff =
       map (\<lambda>prev. \<lparr>PubKey = PubKey prev, Power = getValidatorPower new (PubKey prev)\<rparr>)
         (filter (\<lambda>prev. getValidatorPower new (PubKey prev) \<noteq> Power prev) ?previous)"
    by blast
  have "GetValidators ?b 2 = Inr [\<lparr>PubKey = [65], Power = 10\<rparr>]"
    by code_simp
  with g have n: "new = [\<lparr>PubKey = [65], Power = 10\<rparr>]" by simp
  have "map (\<lambda>prev. \<lparr>PubKey = PubKey prev,
            Power = getValidatorPower [\<lparr>PubKey = [65], Power = 10\<rparr>] (PubKey prev)\<rparr>)
         (filter (\<lambda>prev. getValidatorPower [\<lparr>PubKey = [65], Power = 10\<rparr>] (PubKey prev) \<noteq> Power prev)
            ?previous) = [\<lparr>PubKey = [66], Power = 0\<rparr>]"
    by code_simp
  with e n have "diff = [\<lparr>PubKey = [66], Power = 0\<rparr>]" by simp
  with d show ?thesis by simp
qed

section \<open>Removal\<close>

text \<open>
  C8. \<open>Remove(i)\<close> on either collection: with \<open>i\<close> negative or \<open>i\<close> at least the length it
  returns an error and the collection unchanged, and the caller's collection is
  unchanged; with \<open>i\<close> in range it returns no error and the original elements without
  the one at \<open>i\<close>, the others in their order (one element fewer, those before \<open>i\<close> in
  place, those after \<open>i\<close> one place down). \<open>Remove(0)\<close> on three elements returns the
  second and the third.
\<close>

theorem Remove_bounds_and_result:
  "(i < 0 \<longrightarrow>
      DelegateeBonds_Remove b i = (b, b, Some CannotRemoveNegativeElement) \<and>
      DelegatorBonds_Remove d i = (d, d, Some CannotRemoveNegativeElement)) \<and>
   (int (length b) \<le> i \<and> 0 \<le> i \<longrightarrow>
      DelegateeBonds_Remove b i = (b, b, Some ElementOutOfUpperBound)) \<and>
   (int (length d) \<le> i \<and> 0 \<le> i \<longrightarrow>
      DelegatorBonds_Remove d i = (d, d, Some ElementOutOfUpperBound)) \<and>
   (0 \<le> i \<and> i < int (length b) \<longrightarrow>
      (\<exists>backing result.
         DelegateeBonds_Remove b i = (backing, result, None) \<and>
         result = take (nat i) b @ drop (Suc (nat i)) b \<and>
         Suc (length result) = length b \<and>
         (\<forall>k < nat i. result ! k = b ! k) \<and>
         (\<forall>k. nat i \<le> k \<and> k < length result \<longrightarrow> result ! k = b ! Suc k))) \<and>
   (0 \<le> i \<and> i < int (length d) \<longrightarrow>
      (\<exists>backing result.
         DelegatorBonds_Remove d i = (backing, result, None) \<and>
         result = take (nat i) d @ drop (Suc (nat i)) d \<and>
         Suc (length result) = length d \<and>
         (\<forall>k < nat i. result ! k = d ! k) \<and>
         (\<forall>k. nat i \<le> k \<and> k < length result \<longrightarrow> result ! k = d ! Suc k))) \<and>
   fst (snd (DelegateeBonds_Remove [x0, x1, x2] 0)) = [x1, x2] \<and>
   fst (snd (DelegatorBonds_Remove [y0, y1, y2] 0)) = [y1, y2]"
proof -
  have nth_removed: "(\<forall>k < n. (take n xs @ drop (Suc n) xs) ! k = xs ! k) \<and>
      (\<forall>k. n \<le> k \<and> k < length (take n xs @ drop (Suc n) xs) \<longrightarrow>
         (take n xs @ drop (Suc n) xs) ! k = xs ! Suc k)"
    if "n < length xs" for n and xs :: "'a list"
    using that by (auto simp: nth_append min_def)
  have len_removed: "Suc (length (take n xs @ drop (Suc n) xs)) = length xs"
    if "n < length xs" for n and xs :: "'a list"
    using that by simp
  have a: "0 \<le> i \<and> i < int (length b) \<longrightarrow>
      (\<exists>backing result.
         DelegateeBonds_Remove b i = (backing, result, None) \<and>
         result = take (nat i) b @ drop (Suc (nat i)) b \<and>
         Suc (length result) = length b \<and>
         (\<forall>k < nat i. result ! k = b ! k) \<and>
         (\<forall>k. nat i \<le> k \<and> k < length result \<longrightarrow> result ! k = b ! Suc k))"
  proof
    assume r: "0 \<le> i \<and> i < int (length b)"
    then have n: "nat i < length b" by linarith
    from r have "DelegateeBonds_Remove b i =
        (take (nat i) b @ drop (nat i + 1) b @ [last b], take (nat i) b @ drop (Suc (nat i)) b, None)"
      by (simp add: DelegateeBonds_Remove_def)
    with nth_removed [OF n] len_removed [OF n] show "\<exists>backing result.
         DelegateeBonds_Remove b i = (backing, result, None) \<and>
         result = take (nat i) b @ drop (Suc (nat i)) b \<and>
         Suc (length result) = length b \<and>
         (\<forall>k < nat i. result ! k = b ! k) \<and>
         (\<forall>k. nat i \<le> k \<and> k < length result \<longrightarrow> result ! k = b ! Suc k)"
      by blast
  qed
  have c: "0 \<le> i \<and> i < int (length d) \<longrightarrow>
      (\<exists>backing result.
         DelegatorBonds_Remove d i = (backing, result, None) \<and>
         result = take (nat i) d @ drop (Suc (nat i)) d \<and>
         Suc (length result) = length d \<and>
         (\<forall>k < nat i. result ! k = d ! k) \<and>
         (\<forall>k. nat i \<le> k \<and> k < length result \<longrightarrow> result ! k = d ! Suc k))"
  proof
    assume r: "0 \<le> i \<and> i < int (length d)"
    then have n: "nat i < length d" by linarith
    from r have "DelegatorBonds_Remove d i =
        (take (nat i) d @ drop (nat i + 1) d @ [last d], take (nat i) d @ drop (Suc (nat i)) d, None)"
      by (simp add: DelegatorBonds_Remove_def)
    with nth_removed [OF n] len_removed [OF n] show "\<exists>backing result.
         DelegatorBonds_Remove d i = (backing, result, None) \<and>
         result = take (nat i) d @ drop (Suc (nat i)) d \<and>
         Suc (length result) = length d \<and>
         (\<forall>k < nat i. result ! k = d ! k) \<and>
         (\<forall>k. nat i \<le> k \<and> k < length result \<longrightarrow> result ! k = d ! Suc k)"
      by blast
  qed
  have e: "(i < 0 \<longrightarrow>
      DelegateeBonds_Remove b i = (b, b, Some CannotRemoveNegativeElement) \<and>
      DelegatorBonds_Remove d i = (d, d, Some CannotRemoveNegativeElement)) \<and>
   (int (length b) \<le> i \<and> 0 \<le> i \<longrightarrow>
      DelegateeBonds_Remove b i = (b, b, Some ElementOutOfUpperBound)) \<and>
   (int (length d) \<le> i \<and> 0 \<le> i \<longrightarrow>
      DelegatorBonds_Remove d i = (d, d, Some ElementOutOfUpperBound))"
    by (simp add: DelegateeBonds_Remove_def DelegatorBonds_Remove_def)
  have f: "fst (snd (DelegateeBonds_Remove [x0, x1, x2] 0)) = [x1, x2] \<and>
   fst (snd (DelegatorBonds_Remove [y0, y1, y2] 0)) = [y1, y2]"
    by (simp add: DelegateeBonds_Remove_def DelegatorBonds_Remove_def)
  from a c e f show ?thesis by blast
qed

theorem Remove_bounds_and_result_witness:
  "DelegateeBonds_Remove [candidate ''a'' 3 (dec 1 3), candidate ''b'' 2 (dec 1 2),
                          candidate ''c'' 1 (dec 1 1)] (- 1)
     = ([candidate ''a'' 3 (dec 1 3), candidate ''b'' 2 (dec 1 2), candidate ''c'' 1 (dec 1 1)],
        [candidate ''a'' 3 (dec 1 3), candidate ''b'' 2 (dec 1 2), candidate ''c'' 1 (dec 1 1)],
        Some CannotRemoveNegativeElement) \<and>
   DelegatorBonds_Remove [delegation ''a'' 3, delegation ''b'' 2] 2
     = ([delegation ''a'' 3, delegation ''b'' 2], [delegation ''a'' 3, delegation ''b'' 2],
        Some ElementOutOfUpperBound) \<and>
   DelegateeBonds_Remove [candidate ''a'' 3 (dec 1 3), candidate ''b'' 2 (dec 1 2),
                          candidate ''c'' 1 (dec 1 1)] 3
     = ([candidate ''a'' 3 (dec 1 3), candidate ''b'' 2 (dec 1 2), candidate ''c'' 1 (dec 1 1)],
        [candidate ''a'' 3 (dec 1 3), candidate ''b'' 2 (dec 1 2), candidate ''c'' 1 (dec 1 1)],
        Some ElementOutOfUpperBound) \<and>
   fst (snd (DelegateeBonds_Remove
     [candidate ''a'' 3 (dec 1 3), candidate ''b'' 2 (dec 1 2), candidate ''c'' 1 (dec 1 1)] 1))
     = [candidate ''a'' 3 (dec 1 3), candidate ''c'' 1 (dec 1 1)] \<and>
   fst (snd (DelegatorBonds_Remove [delegation ''a'' 3, delegation ''b'' 2] 0))
     = [delegation ''b'' 2]"
proof -
  let ?b = "[candidate ''a'' 3 (dec 1 3), candidate ''b'' 2 (dec 1 2), candidate ''c'' 1 (dec 1 1)]"
  let ?d = "[delegation ''a'' 3, delegation ''b'' 2]"
  have neg: "DelegateeBonds_Remove ?b (- 1) = (?b, ?b, Some CannotRemoveNegativeElement)"
    using Remove_bounds_and_result [of "- 1" ?b ?d] by simp
  have up: "DelegatorBonds_Remove ?d 2 = (?d, ?d, Some ElementOutOfUpperBound)"
    using Remove_bounds_and_result [of 2 ?b ?d] by simp
  have up': "DelegateeBonds_Remove ?b 3 = (?b, ?b, Some ElementOutOfUpperBound)"
    using Remove_bounds_and_result [of 3 ?b ?d] by simp
  have i1: "0 \<le> (1::int) \<and> 1 < int (length ?b)" by simp
  with Remove_bounds_and_result [of 1 ?b ?d] obtain backing where
    "DelegateeBonds_Remove ?b 1 = (backing, take (nat 1) ?b @ drop (Suc (nat 1)) ?b, None)"
    by blast
  then have mid: "fst (snd (DelegateeBonds_Remove ?b 1)) = [candidate ''a'' 3 (dec 1 3),
                                                            candidate ''c'' 1 (dec 1 1)]"
    by simp
  have i0: "0 \<le> (0::int) \<and> 0 < int (length ?d)" by simp
  with Remove_bounds_and_result [of 0 ?b ?d] obtain backing' where
    "DelegatorBonds_Remove ?d 0 = (backing', take (nat 0) ?d @ drop (Suc (nat 0)) ?d, None)"
    by blast
  then have first: "fst (snd (DelegatorBonds_Remove ?d 0)) = [delegation ''b'' 2]"
    by simp
  from neg up up' mid first show ?thesis by simp
qed

section \<open>Lookup\<close>

lemma Equals_iff: "Equals a b = (a = b)"
  by (auto simp: Equals_def bytes_Equal_def)

lemma fields_equal_iff:
  "(Address a = Address b \<and> ChainID a = ChainID b \<and> App a = App b) = (a = b)"
  for a b :: Actor
  by auto

lemma DelegateeBonds_Get_loop_absent:
  "\<forall>x \<in> set b. DelegateeBond.Delegatee x \<noteq> delegatee \<Longrightarrow>
   DelegateeBonds_Get_loop n b delegatee = (0, None)"
  by (induction b arbitrary: n) (auto simp: Equals_iff)

lemma DelegateeBonds_Get_loop_found:
  "\<exists>x \<in> set b. DelegateeBond.Delegatee x = delegatee \<Longrightarrow>
   \<exists>i < length b.
     DelegateeBonds_Get_loop n b delegatee = (n + i, Some (b ! i)) \<and>
     DelegateeBond.Delegatee (b ! i) = delegatee \<and>
     (\<forall>k < i. DelegateeBond.Delegatee (b ! k) \<noteq> delegatee)"
proof (induction b arbitrary: n)
  case Nil
  then show ?case by simp
next
  case (Cons bv rest)
  show ?case
  proof (cases "DelegateeBond.Delegatee bv = delegatee")
    case True
    then have "DelegateeBonds_Get_loop n (bv # rest) delegatee = (n + 0, Some ((bv # rest) ! 0))"
      by (simp add: Equals_iff)
    with True show ?thesis by (intro exI [of _ 0]) simp
  next
    case False
    with Cons.prems have "\<exists>x \<in> set rest. DelegateeBond.Delegatee x = delegatee" by simp
    from Cons.IH [OF this, of "Suc n"] obtain i where
      i: "i < length rest" and
      g: "DelegateeBonds_Get_loop (Suc n) rest delegatee = (Suc n + i, Some (rest ! i))" and
      m: "DelegateeBond.Delegatee (rest ! i) = delegatee" and
      f: "\<forall>k < i. DelegateeBond.Delegatee (rest ! k) \<noteq> delegatee"
      by blast
    have "\<forall>k < Suc i. DelegateeBond.Delegatee ((bv # rest) ! k) \<noteq> delegatee"
      using False f by (auto simp: less_Suc_eq_0_disj)
    with i g m False show ?thesis
      by (intro exI [of _ "Suc i"]) (simp add: Equals_iff)
  qed
qed

lemma DelegatorBonds_Get_loop_absent:
  "\<forall>x \<in> set b. DelegatorBond.Delegatee x \<noteq> delegatee \<Longrightarrow>
   DelegatorBonds_Get_loop n b delegatee = (0, None)"
  by (induction b arbitrary: n) (auto simp: bytes_Equal_def)

lemma DelegatorBonds_Get_loop_found:
  "\<exists>x \<in> set b. DelegatorBond.Delegatee x = delegatee \<Longrightarrow>
   \<exists>i < length b.
     DelegatorBonds_Get_loop n b delegatee = (n + i, Some (b ! i)) \<and>
     DelegatorBond.Delegatee (b ! i) = delegatee \<and>
     (\<forall>k < i. DelegatorBond.Delegatee (b ! k) \<noteq> delegatee)"
proof (induction b arbitrary: n)
  case Nil
  then show ?case by simp
next
  case (Cons bv rest)
  have eq: "(bytes_Equal (Address (DelegatorBond.Delegatee bv)) (Address delegatee) \<and>
         ChainID (DelegatorBond.Delegatee bv) = ChainID delegatee \<and>
         App (DelegatorBond.Delegatee bv) = App delegatee) = (DelegatorBond.Delegatee bv = delegatee)"
    by (auto simp: bytes_Equal_def)
  show ?case
  proof (cases "DelegatorBond.Delegatee bv = delegatee")
    case True
    then have "DelegatorBonds_Get_loop n (bv # rest) delegatee = (n + 0, Some ((bv # rest) ! 0))"
      by (simp add: bytes_Equal_def)
    with True show ?thesis by (intro exI [of _ 0]) simp
  next
    case False
    with Cons.prems have "\<exists>x \<in> set rest. DelegatorBond.Delegatee x = delegatee" by simp
    from Cons.IH [OF this, of "Suc n"] obtain i where
      i: "i < length rest" and
      g: "DelegatorBonds_Get_loop (Suc n) rest delegatee = (Suc n + i, Some (rest ! i))" and
      m: "DelegatorBond.Delegatee (rest ! i) = delegatee" and
      f: "\<forall>k < i. DelegatorBond.Delegatee (rest ! k) \<noteq> delegatee"
      by blast
    have "\<forall>k < Suc i. DelegatorBond.Delegatee ((bv # rest) ! k) \<noteq> delegatee"
      using False f by (auto simp: less_Suc_eq_0_disj)
    moreover have "DelegatorBonds_Get_loop n (bv # rest) delegatee = (n + Suc i, Some ((bv # rest) ! Suc i))"
      using False g eq by simp
    ultimately show ?thesis using i m
      by (intro exI [of _ "Suc i"]) simp
  qed
qed

text \<open>
  C9. \<open>Get\<close> on either collection: when some element has the given identity, it returns
  the index of the first such element and a record equal to that element; when none
  has, it returns index 0 with the nil pointer. The pointer is nil exactly when no
  element has the identity, so a match at index 0 is told apart from a miss.
\<close>

theorem Get_found_or_nil:
  "((\<exists>x \<in> set b. DelegateeBond.Delegatee x = delegatee) \<longrightarrow>
      (\<exists>i < length b.
         DelegateeBonds_Get b delegatee = (i, Some (b ! i)) \<and>
         DelegateeBond.Delegatee (b ! i) = delegatee \<and>
         (\<forall>k < i. DelegateeBond.Delegatee (b ! k) \<noteq> delegatee))) \<and>
   ((\<forall>x \<in> set b. DelegateeBond.Delegatee x \<noteq> delegatee) \<longrightarrow>
      DelegateeBonds_Get b delegatee = (0, None)) \<and>
   (snd (DelegateeBonds_Get b delegatee) = None) =
      (\<forall>x \<in> set b. DelegateeBond.Delegatee x \<noteq> delegatee) \<and>
   ((\<exists>x \<in> set d. DelegatorBond.Delegatee x = delegatee) \<longrightarrow>
      (\<exists>i < length d.
         DelegatorBonds_Get d delegatee = (i, Some (d ! i)) \<and>
         DelegatorBond.Delegatee (d ! i) = delegatee \<and>
         (\<forall>k < i. DelegatorBond.Delegatee (d ! k) \<noteq> delegatee))) \<and>
   ((\<forall>x \<in> set d. DelegatorBond.Delegatee x \<noteq> delegatee) \<longrightarrow>
      DelegatorBonds_Get d delegatee = (0, None)) \<and>
   (snd (DelegatorBonds_Get d delegatee) = None) =
      (\<forall>x \<in> set d. DelegatorBond.Delegatee x \<noteq> delegatee)"
proof -
  have a1: "(\<exists>x \<in> set b. DelegateeBond.Delegatee x = delegatee) \<longrightarrow>
      (\<exists>i < length b.
         DelegateeBonds_Get b delegatee = (i, Some (b ! i)) \<and>
         DelegateeBond.Delegatee (b ! i) = delegatee \<and>
         (\<forall>k < i. DelegateeBond.Delegatee (b ! k) \<noteq> delegatee))"
    using DelegateeBonds_Get_loop_found [of b delegatee 0]
    by (simp add: DelegateeBonds_Get_def)
  have a2: "(\<forall>x \<in> set b. DelegateeBond.Delegatee x \<noteq> delegatee) \<longrightarrow>
      DelegateeBonds_Get b delegatee = (0, None)"
    by (simp add: DelegateeBonds_Get_def DelegateeBonds_Get_loop_absent)
  have a3: "(snd (DelegateeBonds_Get b delegatee) = None) =
      (\<forall>x \<in> set b. DelegateeBond.Delegatee x \<noteq> delegatee)"
    using a1 a2 by (cases "\<exists>x \<in> set b. DelegateeBond.Delegatee x = delegatee") auto
  have b1: "(\<exists>x \<in> set d. DelegatorBond.Delegatee x = delegatee) \<longrightarrow>
      (\<exists>i < length d.
         DelegatorBonds_Get d delegatee = (i, Some (d ! i)) \<and>
         DelegatorBond.Delegatee (d ! i) = delegatee \<and>
         (\<forall>k < i. DelegatorBond.Delegatee (d ! k) \<noteq> delegatee))"
    using DelegatorBonds_Get_loop_found [of d delegatee 0]
    by (simp add: DelegatorBonds_Get_def)
  have b2: "(\<forall>x \<in> set d. DelegatorBond.Delegatee x \<noteq> delegatee) \<longrightarrow>
      DelegatorBonds_Get d delegatee = (0, None)"
    by (simp add: DelegatorBonds_Get_def DelegatorBonds_Get_loop_absent)
  have b3: "(snd (DelegatorBonds_Get d delegatee) = None) =
      (\<forall>x \<in> set d. DelegatorBond.Delegatee x \<noteq> delegatee)"
    using b1 b2 by (cases "\<exists>x \<in> set d. DelegatorBond.Delegatee x = delegatee") auto
  from a1 a2 a3 b1 b2 b3 show ?thesis by blast
qed

theorem Get_found_or_nil_witness:
  "snd (DelegateeBonds_Get [candidate ''a'' 3 (dec 1 3), candidate ''b'' 2 (dec 1 2)] (actor ''z'')) = None \<and>
   snd (DelegateeBonds_Get [candidate ''a'' 3 (dec 1 3), candidate ''b'' 2 (dec 1 2)] (actor ''a'')) \<noteq> None \<and>
   DelegateeBonds_Get [candidate ''a'' 3 (dec 1 3), candidate ''b'' 2 (dec 1 2)] (actor ''a'')
     = (0, Some (candidate ''a'' 3 (dec 1 3))) \<and>
   DelegateeBonds_Get [candidate ''a'' 3 (dec 1 3), candidate ''b'' 2 (dec 1 2)] (actor ''b'')
     = (1, Some (candidate ''b'' 2 (dec 1 2))) \<and>
   snd (DelegatorBonds_Get [delegation ''a'' 3, delegation ''b'' 2] (actor ''z'')) = None \<and>
   DelegatorBonds_Get [delegation ''a'' 3, delegation ''b'' 2] (actor ''b'')
     = (1, Some (delegation ''b'' 2))"
proof -
  let ?b = "[candidate ''a'' 3 (dec 1 3), candidate ''b'' 2 (dec 1 2)]"
  let ?d = "[delegation ''a'' 3, delegation ''b'' 2]"
  have miss: "\<forall>x \<in> set ?b. DelegateeBond.Delegatee x \<noteq> actor ''z''"
    by (simp add: candidate_def actor_def)
  have miss': "\<forall>x \<in> set ?d. DelegatorBond.Delegatee x \<noteq> actor ''z''"
    by (simp add: delegation_def actor_def)
  have hit: "\<not> (\<forall>x \<in> set ?b. DelegateeBond.Delegatee x \<noteq> actor ''a'')"
    by (simp add: candidate_def)
  have n: "snd (DelegateeBonds_Get ?b (actor ''z'')) = None"
    using Get_found_or_nil [of ?b "actor ''z''" ?d] miss by blast
  have n': "snd (DelegatorBonds_Get ?d (actor ''z'')) = None"
    using Get_found_or_nil [of ?b "actor ''z''" ?d] miss' by blast
  have s: "snd (DelegateeBonds_Get ?b (actor ''a'')) \<noteq> None"
    using Get_found_or_nil [of ?b "actor ''a''" ?d] hit by blast
  have e0: "DelegateeBonds_Get ?b (actor ''a'') = (0, Some (candidate ''a'' 3 (dec 1 3)))"
    by code_simp
  have e1: "DelegateeBonds_Get ?b (actor ''b'') = (1, Some (candidate ''b'' 2 (dec 1 2)))"
    by code_simp
  have e2: "DelegatorBonds_Get ?d (actor ''b'') = (1, Some (delegation ''b'' 2))"
    by code_simp
  from n n' s e0 e1 e2 show ?thesis by simp
qed

section \<open>The pointer returned by \<open>Get\<close>\<close>

lemma structs_assign: "structs (assign m p v) a = (if a = p then v else structs m a)"
  by (simp add: assign_def)

lemma bytes_assign: "bytes (assign m p v) = bytes m"
  by (simp add: assign_def)

lemma load_Actor_assign: "load_Actor (assign m p v) a = load_Actor m a"
  by (simp add: load_Actor_def bytes_assign)

lemma load_Actor_next_free: "load_Actor (m\<lparr>next_free := n\<rparr>) a = load_Actor m a"
  by (simp add: load_Actor_def)

lemma load_DelegateeBond_assign: "load_DelegateeBond (assign m p v) x = load_DelegateeBond m x"
  by (simp add: load_DelegateeBond_def load_Actor_assign)

lemma load_DelegatorBond_assign: "load_DelegatorBond (assign m p v) x = load_DelegatorBond m x"
  by (simp add: load_DelegatorBond_def load_Actor_assign)

lemma load_DelegateeBond_next_free:
  "load_DelegateeBond (m\<lparr>next_free := n\<rparr>) x = load_DelegateeBond m x"
  by (simp add: load_DelegateeBond_def load_Actor_next_free)

lemma load_DelegatorBond_next_free:
  "load_DelegatorBond (m\<lparr>next_free := n\<rparr>) x = load_DelegatorBond m x"
  by (simp add: load_DelegatorBond_def load_Actor_next_free)

lemma load_bytes_cong:
  "bytes m' = bytes m \<Longrightarrow> load_DelegateeBond m' x = load_DelegateeBond m x"
  "bytes m' = bytes m \<Longrightarrow> load_DelegatorBond m' y = load_DelegatorBond m y"
  by (simp_all add: load_DelegateeBond_def load_DelegatorBond_def load_Actor_def)

lemma DelegateeBonds_match:
  "Equals (load_Actor (assign m p x) (Delegatee_ref (structs (assign m p x) p)))
     (load_Actor (assign m p x) delegatee)
   = (DelegateeBond.Delegatee (load_DelegateeBond m x) = load_Actor m delegatee)"
  by (simp add: structs_assign load_Actor_assign load_DelegateeBond_def Equals_iff)

lemma DelegatorBonds_match:
  "(bytes_Equal (bytes (assign m p x) (Address_ref (Delegator_Delegatee_ref (structs (assign m p x) p))))
      (bytes (assign m p x) (Address_ref delegatee)) \<and>
    ChainID_ref (Delegator_Delegatee_ref (structs (assign m p x) p)) = ChainID_ref delegatee \<and>
    App_ref (Delegator_Delegatee_ref (structs (assign m p x) p)) = App_ref delegatee)
   = (DelegatorBond.Delegatee (load_DelegatorBond m x) = load_Actor m delegatee)"
  by (auto simp: structs_assign bytes_assign load_DelegatorBond_def load_Actor_def bytes_Equal_def)

lemma DelegateeBonds_Get_mem_loop_frame:
  "slice_base s + i + n \<le> p \<Longrightarrow>
   DelegateeBonds_Get_mem_loop m s delegatee p i n = (m', j, Some q) \<Longrightarrow>
   q = p \<and> i \<le> j \<and> j < i + n \<and> structs m' p = structs m (slice_base s + j) \<and>
   (\<forall>a. a \<noteq> p \<longrightarrow> structs m' a = structs m a) \<and> bytes m' = bytes m"
proof (induction n arbitrary: m i)
  case 0
  then show ?case by simp
next
  case (Suc n)
  let ?x = "structs m (slice_base s + i)"
  let ?m1 = "assign m p ?x"
  show ?case
  proof (cases "DelegateeBond.Delegatee (load_DelegateeBond m ?x) = load_Actor m delegatee")
    case True
    with Suc.prems(2) have "m' = ?m1" "j = i" "q = p"
      by (auto simp: Let_def DelegateeBonds_match)
    then show ?thesis by (simp add: structs_assign bytes_assign)
  next
    case False
    with Suc.prems(2) have run: "DelegateeBonds_Get_mem_loop ?m1 s delegatee p (Suc i) n = (m', j, Some q)"
      by (simp add: Let_def DelegateeBonds_match)
    have "slice_base s + Suc i + n \<le> p" using Suc.prems(1) by simp
    from Suc.IH [OF this run] have
      ih: "q = p \<and> Suc i \<le> j \<and> j < Suc i + n \<and> structs m' p = structs ?m1 (slice_base s + j) \<and>
        (\<forall>a. a \<noteq> p \<longrightarrow> structs m' a = structs ?m1 a) \<and> bytes m' = bytes ?m1" .
    moreover have "slice_base s + j \<noteq> p" using ih Suc.prems(1) by linarith
    ultimately show ?thesis by (simp add: structs_assign bytes_assign)
  qed
qed

lemma DelegateeBonds_Get_mem_loop_list:
  "slice_base s + i + n \<le> p \<Longrightarrow>
   DelegateeBonds_Get_mem_loop m s delegatee p i n = (m', j, r) \<Longrightarrow>
   DelegateeBonds_Get_loop i
     (map (\<lambda>k. load_DelegateeBond m (structs m (slice_base s + k))) [i ..< i + n])
     (load_Actor m delegatee)
     = (j, map_option (\<lambda>q. load_DelegateeBond m' (structs m' q)) r)"
proof (induction n arbitrary: m i)
  case 0
  then show ?case by auto
next
  case (Suc n)
  let ?x = "structs m (slice_base s + i)"
  let ?m1 = "assign m p ?x"
  have up: "[i ..< i + Suc n] = i # [Suc i ..< Suc i + n]"
    by (simp add: upt_conv_Cons)
  show ?case
  proof (cases "DelegateeBond.Delegatee (load_DelegateeBond m ?x) = load_Actor m delegatee")
    case True
    with Suc.prems(2) have "m' = ?m1" "j = i" "r = Some p"
      by (auto simp: Let_def DelegateeBonds_match)
    with True show ?thesis unfolding up
      by (simp add: structs_assign load_DelegateeBond_assign Equals_iff del: upt_Suc)
  next
    case False
    with Suc.prems(2) have run: "DelegateeBonds_Get_mem_loop ?m1 s delegatee p (Suc i) n = (m', j, r)"
      by (simp add: Let_def DelegateeBonds_match)
    have le: "slice_base s + Suc i + n \<le> p" using Suc.prems(1) by simp
    have same: "map (\<lambda>k. load_DelegateeBond ?m1 (structs ?m1 (slice_base s + k))) [Suc i ..< Suc i + n]
        = map (\<lambda>k. load_DelegateeBond m (structs m (slice_base s + k))) [Suc i ..< Suc i + n]"
      using le by (auto simp: structs_assign load_DelegateeBond_assign simp del: upt_Suc)
    note ih = Suc.IH [OF le run, unfolded same load_Actor_assign]
    show ?thesis unfolding up using False ih by (simp add: Equals_iff del: upt_Suc)
  qed
qed

lemma DelegateeBonds_Get_mem_copy:
  assumes alloc: "slice_base s + slice_len s \<le> next_free m"
    and run: "DelegateeBonds_Get_mem m s delegatee = (m', i, Some p)"
  shows "p = next_free m \<and>
     p \<notin> {slice_base s ..< slice_base s + slice_len s} \<and> i < slice_len s \<and>
     (\<forall>a. a \<noteq> p \<longrightarrow> structs m' a = structs m a) \<and>
     structs m' p = structs m (slice_base s + i) \<and>
     bytes m' = bytes m \<and>
     DelegateeBonds_elems s m' = DelegateeBonds_elems s m \<and>
     (\<forall>v. DelegateeBonds_elems s (assign m' p v) = DelegateeBonds_elems s m) \<and>
     DelegateeBonds_Get (DelegateeBonds_elems s m) (load_Actor m delegatee)
       = (i, Some (load_DelegateeBond m' (structs m' p)))"
proof -
  let ?m0 = "m\<lparr>next_free := Suc (next_free m)\<rparr>"
  from run have loop:
    "DelegateeBonds_Get_mem_loop ?m0 s delegatee (next_free m) 0 (slice_len s) = (m', i, Some p)"
    by (simp add: DelegateeBonds_Get_mem_def Let_def)
  from alloc have le: "slice_base s + 0 + slice_len s \<le> next_free m" by simp
  from DelegateeBonds_Get_mem_loop_frame [OF le loop] have
    fr: "p = next_free m" "i < slice_len s" "structs m' p = structs m (slice_base s + i)"
      "\<forall>a. a \<noteq> p \<longrightarrow> structs m' a = structs m a" "bytes m' = bytes m"
    by simp_all
  have out: "p \<notin> {slice_base s ..< slice_base s + slice_len s}"
    using fr(1) alloc by simp
  have el: "DelegateeBonds_elems s m' = DelegateeBonds_elems s m"
    using out fr(4) load_bytes_cong [OF fr(5)] by (auto simp: DelegateeBonds_elems_def)
  have wr: "\<forall>v. DelegateeBonds_elems s (assign m' p v) = DelegateeBonds_elems s m"
  proof
    fix v
    have "DelegateeBonds_elems s (assign m' p v) = DelegateeBonds_elems s m'"
      using out by (auto simp: DelegateeBonds_elems_def structs_assign load_DelegateeBond_assign)
    with el show "DelegateeBonds_elems s (assign m' p v) = DelegateeBonds_elems s m" by simp
  qed
  have "DelegateeBonds_Get_loop 0
      (map (\<lambda>k. load_DelegateeBond ?m0 (structs ?m0 (slice_base s + k))) [0 ..< 0 + slice_len s])
      (load_Actor ?m0 delegatee)
      = (i, map_option (\<lambda>q. load_DelegateeBond m' (structs m' q)) (Some p))"
    using le loop by (rule DelegateeBonds_Get_mem_loop_list)
  then have li: "DelegateeBonds_Get (DelegateeBonds_elems s m) (load_Actor m delegatee)
      = (i, Some (load_DelegateeBond m' (structs m' p)))"
    by (simp add: DelegateeBonds_Get_def DelegateeBonds_elems_def load_DelegateeBond_next_free load_Actor_next_free)
  from fr(1) out fr(2) fr(4) fr(3) fr(5) el wr li show ?thesis
    by simp
qed

lemma DelegatorBonds_Get_mem_loop_frame:
  "slice_base s + i + n \<le> p \<Longrightarrow>
   DelegatorBonds_Get_mem_loop m s delegatee p i n = (m', j, Some q) \<Longrightarrow>
   q = p \<and> i \<le> j \<and> j < i + n \<and> structs m' p = structs m (slice_base s + j) \<and>
   (\<forall>a. a \<noteq> p \<longrightarrow> structs m' a = structs m a) \<and> bytes m' = bytes m"
proof (induction n arbitrary: m i)
  case 0
  then show ?case by simp
next
  case (Suc n)
  let ?x = "structs m (slice_base s + i)"
  let ?m1 = "assign m p ?x"
  show ?case
  proof (cases "DelegatorBond.Delegatee (load_DelegatorBond m ?x) = load_Actor m delegatee")
    case True
    with Suc.prems(2) have "m' = ?m1" "j = i" "q = p"
      by (auto simp: Let_def DelegatorBonds_match)
    then show ?thesis by (simp add: structs_assign bytes_assign)
  next
    case False
    with Suc.prems(2) have run: "DelegatorBonds_Get_mem_loop ?m1 s delegatee p (Suc i) n = (m', j, Some q)"
      by (simp add: Let_def DelegatorBonds_match)
    have "slice_base s + Suc i + n \<le> p" using Suc.prems(1) by simp
    from Suc.IH [OF this run] have
      ih: "q = p \<and> Suc i \<le> j \<and> j < Suc i + n \<and> structs m' p = structs ?m1 (slice_base s + j) \<and>
        (\<forall>a. a \<noteq> p \<longrightarrow> structs m' a = structs ?m1 a) \<and> bytes m' = bytes ?m1" .
    moreover have "slice_base s + j \<noteq> p" using ih Suc.prems(1) by linarith
    ultimately show ?thesis by (simp add: structs_assign bytes_assign)
  qed
qed

lemma DelegatorBonds_Get_mem_loop_list:
  "slice_base s + i + n \<le> p \<Longrightarrow>
   DelegatorBonds_Get_mem_loop m s delegatee p i n = (m', j, r) \<Longrightarrow>
   DelegatorBonds_Get_loop i
     (map (\<lambda>k. load_DelegatorBond m (structs m (slice_base s + k))) [i ..< i + n])
     (load_Actor m delegatee)
     = (j, map_option (\<lambda>q. load_DelegatorBond m' (structs m' q)) r)"
proof (induction n arbitrary: m i)
  case 0
  then show ?case by auto
next
  case (Suc n)
  let ?x = "structs m (slice_base s + i)"
  let ?m1 = "assign m p ?x"
  have up: "[i ..< i + Suc n] = i # [Suc i ..< Suc i + n]"
    by (simp add: upt_conv_Cons)
  show ?case
  proof (cases "DelegatorBond.Delegatee (load_DelegatorBond m ?x) = load_Actor m delegatee")
    case True
    with Suc.prems(2) have "m' = ?m1" "j = i" "r = Some p"
      by (auto simp: Let_def DelegatorBonds_match)
    with True show ?thesis unfolding up
      by (simp add: structs_assign load_DelegatorBond_assign fields_equal_iff bytes_Equal_def del: upt_Suc)
  next
    case False
    with Suc.prems(2) have run: "DelegatorBonds_Get_mem_loop ?m1 s delegatee p (Suc i) n = (m', j, r)"
      by (simp add: Let_def DelegatorBonds_match)
    have le: "slice_base s + Suc i + n \<le> p" using Suc.prems(1) by simp
    have same: "map (\<lambda>k. load_DelegatorBond ?m1 (structs ?m1 (slice_base s + k))) [Suc i ..< Suc i + n]
        = map (\<lambda>k. load_DelegatorBond m (structs m (slice_base s + k))) [Suc i ..< Suc i + n]"
      using le by (auto simp: structs_assign load_DelegatorBond_assign simp del: upt_Suc)
    note ih = Suc.IH [OF le run, unfolded same load_Actor_assign]
    show ?thesis unfolding up using False ih by (simp add: fields_equal_iff bytes_Equal_def del: upt_Suc)
  qed
qed

lemma DelegatorBonds_Get_mem_copy:
  assumes alloc: "slice_base s + slice_len s \<le> next_free m"
    and run: "DelegatorBonds_Get_mem m s delegatee = (m', i, Some p)"
  shows "p = next_free m \<and>
     p \<notin> {slice_base s ..< slice_base s + slice_len s} \<and> i < slice_len s \<and>
     (\<forall>a. a \<noteq> p \<longrightarrow> structs m' a = structs m a) \<and>
     structs m' p = structs m (slice_base s + i) \<and>
     bytes m' = bytes m \<and>
     DelegatorBonds_elems s m' = DelegatorBonds_elems s m \<and>
     (\<forall>v. DelegatorBonds_elems s (assign m' p v) = DelegatorBonds_elems s m) \<and>
     DelegatorBonds_Get (DelegatorBonds_elems s m) (load_Actor m delegatee)
       = (i, Some (load_DelegatorBond m' (structs m' p)))"
proof -
  let ?m0 = "m\<lparr>next_free := Suc (next_free m)\<rparr>"
  from run have loop:
    "DelegatorBonds_Get_mem_loop ?m0 s delegatee (next_free m) 0 (slice_len s) = (m', i, Some p)"
    by (simp add: DelegatorBonds_Get_mem_def Let_def)
  from alloc have le: "slice_base s + 0 + slice_len s \<le> next_free m" by simp
  from DelegatorBonds_Get_mem_loop_frame [OF le loop] have
    fr: "p = next_free m" "i < slice_len s" "structs m' p = structs m (slice_base s + i)"
      "\<forall>a. a \<noteq> p \<longrightarrow> structs m' a = structs m a" "bytes m' = bytes m"
    by simp_all
  have out: "p \<notin> {slice_base s ..< slice_base s + slice_len s}"
    using fr(1) alloc by simp
  have el: "DelegatorBonds_elems s m' = DelegatorBonds_elems s m"
    using out fr(4) load_bytes_cong [OF fr(5)] by (auto simp: DelegatorBonds_elems_def)
  have wr: "\<forall>v. DelegatorBonds_elems s (assign m' p v) = DelegatorBonds_elems s m"
  proof
    fix v
    have "DelegatorBonds_elems s (assign m' p v) = DelegatorBonds_elems s m'"
      using out by (auto simp: DelegatorBonds_elems_def structs_assign load_DelegatorBond_assign)
    with el show "DelegatorBonds_elems s (assign m' p v) = DelegatorBonds_elems s m" by simp
  qed
  have "DelegatorBonds_Get_loop 0
      (map (\<lambda>k. load_DelegatorBond ?m0 (structs ?m0 (slice_base s + k))) [0 ..< 0 + slice_len s])
      (load_Actor ?m0 delegatee)
      = (i, map_option (\<lambda>q. load_DelegatorBond m' (structs m' q)) (Some p))"
    using le loop by (rule DelegatorBonds_Get_mem_loop_list)
  then have li: "DelegatorBonds_Get (DelegatorBonds_elems s m) (load_Actor m delegatee)
      = (i, Some (load_DelegatorBond m' (structs m' p)))"
    by (simp add: DelegatorBonds_Get_def DelegatorBonds_elems_def load_DelegatorBond_next_free load_Actor_next_free)
  from fr(1) out fr(2) fr(4) fr(3) fr(5) el wr li show ?thesis
    by simp
qed


lemma DelegateeBonds_shared_bytes:
  assumes alloc: "slice_base s + slice_len s \<le> next_free m"
    and run: "DelegateeBonds_Get_mem m s delegatee = (m', i, Some p)"
    and k: "k < length (Address (DelegateeBond.Delegatee (DelegateeBonds_elems s m ! i)))"
  shows "\<exists>m''. store_Delegatee_Address_byte m' p k x = Inr m'' \<and>
     Address (DelegateeBond.Delegatee (DelegateeBonds_elems s m'' ! i))
       = (Address (DelegateeBond.Delegatee (DelegateeBonds_elems s m ! i)))[k := x]"
proof -
  from DelegateeBonds_Get_mem_copy [OF alloc run] have
    c: "p \<notin> {slice_base s ..< slice_base s + slice_len s}" "i < slice_len s"
      "structs m' p = structs m (slice_base s + i)" "bytes m' = bytes m"
      "DelegateeBonds_elems s m' = DelegateeBonds_elems s m"
      "\<forall>a. a \<noteq> p \<longrightarrow> structs m' a = structs m a"
    by blast+
  have ne: "slice_base s + i \<noteq> p" using c(1) c(2) by auto
  with c(6) have same: "structs m' (slice_base s + i) = structs m (slice_base s + i)" by simp
  let ?a = "Address_ref (Delegatee_ref (structs m (slice_base s + i)))"
  let ?m'' = "m'\<lparr>bytes := (bytes m')(?a := (bytes m' ?a)[k := x])\<rparr>"
  have ad: "Address (DelegateeBond.Delegatee (DelegateeBonds_elems s m ! i)) = bytes m ?a"
    using c(2) by (simp add: DelegateeBonds_elems_def load_DelegateeBond_def load_Actor_def)
  have st: "store_Delegatee_Address_byte m' p k x = Inr ?m''"
    using k c(3) c(4) ad by (simp add: store_Delegatee_Address_byte_def store_byte_def)
  have "DelegateeBonds_elems s ?m'' ! i = load_DelegateeBond ?m'' (structs m' (slice_base s + i))"
    using c(2) by (simp add: DelegateeBonds_elems_def)
  moreover have "DelegateeBonds_elems s m' ! i = load_DelegateeBond m' (structs m' (slice_base s + i))"
    using c(2) by (simp add: DelegateeBonds_elems_def)
  ultimately have "Address (DelegateeBond.Delegatee (DelegateeBonds_elems s ?m'' ! i))
      = (Address (DelegateeBond.Delegatee (DelegateeBonds_elems s m' ! i)))[k := x]"
    using c(5) ad c(4) same by (simp add: load_DelegateeBond_def load_Actor_def)
  with st c(5) show ?thesis by simp
qed

lemma DelegatorBonds_shared_bytes:
  assumes alloc: "slice_base s + slice_len s \<le> next_free m"
    and run: "DelegatorBonds_Get_mem m s delegatee = (m', i, Some p)"
    and k: "k < length (Address (DelegatorBond.Delegatee (DelegatorBonds_elems s m ! i)))"
  shows "\<exists>m''. store_Delegator_Address_byte m' p k x = Inr m'' \<and>
     Address (DelegatorBond.Delegatee (DelegatorBonds_elems s m'' ! i))
       = (Address (DelegatorBond.Delegatee (DelegatorBonds_elems s m ! i)))[k := x]"
proof -
  from DelegatorBonds_Get_mem_copy [OF alloc run] have
    c: "p \<notin> {slice_base s ..< slice_base s + slice_len s}" "i < slice_len s"
      "structs m' p = structs m (slice_base s + i)" "bytes m' = bytes m"
      "DelegatorBonds_elems s m' = DelegatorBonds_elems s m"
      "\<forall>a. a \<noteq> p \<longrightarrow> structs m' a = structs m a"
    by blast+
  have ne: "slice_base s + i \<noteq> p" using c(1) c(2) by auto
  with c(6) have same: "structs m' (slice_base s + i) = structs m (slice_base s + i)" by simp
  let ?a = "Address_ref (Delegator_Delegatee_ref (structs m (slice_base s + i)))"
  let ?m'' = "m'\<lparr>bytes := (bytes m')(?a := (bytes m' ?a)[k := x])\<rparr>"
  have ad: "Address (DelegatorBond.Delegatee (DelegatorBonds_elems s m ! i)) = bytes m ?a"
    using c(2) by (simp add: DelegatorBonds_elems_def load_DelegatorBond_def load_Actor_def)
  have st: "store_Delegator_Address_byte m' p k x = Inr ?m''"
    using k c(3) c(4) ad by (simp add: store_Delegator_Address_byte_def store_byte_def)
  have "DelegatorBonds_elems s ?m'' ! i = load_DelegatorBond ?m'' (structs m' (slice_base s + i))"
    using c(2) by (simp add: DelegatorBonds_elems_def)
  moreover have "DelegatorBonds_elems s m' ! i = load_DelegatorBond m' (structs m' (slice_base s + i))"
    using c(2) by (simp add: DelegatorBonds_elems_def)
  ultimately have "Address (DelegatorBond.Delegatee (DelegatorBonds_elems s ?m'' ! i))
      = (Address (DelegatorBond.Delegatee (DelegatorBonds_elems s m' ! i)))[k := x]"
    using c(5) ad c(4) same by (simp add: load_DelegatorBond_def load_Actor_def)
  with st c(5) show ?thesis by simp
qed

text \<open>
  C10, as the code has it. When \<open>Get\<close> finds a match on a collection whose cells are
  allocated, the pointer it returns is the address of a cell allocated by the call,
  outside the cells of the collection, that holds a copy of the matched struct. The call
  leaves the elements of the collection as they were, and so does every assignment to
  the struct the pointer refers to or to a field of it. Index and pointee are those of
  \<open>Get\<close> on the list of the elements. The copy is shallow: its \<open>Address\<close> refers to the bytes
  the matched element's \<open>Address\<close> refers to, and an assignment to one of these bytes
  through the pointer changes that byte of the matched element's address. This holds for
  both collections.
\<close>

theorem Get_returns_pointer_to_shallow_copy:
  "(slice_base s + slice_len s \<le> next_free m \<and>
    DelegateeBonds_Get_mem m s delegatee = (m', i, Some p) \<longrightarrow>
      p = next_free m \<and>
      p \<notin> {slice_base s ..< slice_base s + slice_len s} \<and> i < slice_len s \<and>
      structs m' p = structs m (slice_base s + i) \<and>
      bytes m' = bytes m \<and>
      DelegateeBonds_elems s m' = DelegateeBonds_elems s m \<and>
      (\<forall>v. DelegateeBonds_elems s (assign m' p v) = DelegateeBonds_elems s m) \<and>
      DelegateeBonds_Get (DelegateeBonds_elems s m) (load_Actor m delegatee)
        = (i, Some (load_DelegateeBond m' (structs m' p))) \<and>
      (\<forall>k x. k < length (Address (DelegateeBond.Delegatee (DelegateeBonds_elems s m ! i))) \<longrightarrow>
         (\<exists>m''. store_Delegatee_Address_byte m' p k x = Inr m'' \<and>
            Address (DelegateeBond.Delegatee (DelegateeBonds_elems s m'' ! i))
              = (Address (DelegateeBond.Delegatee (DelegateeBonds_elems s m ! i)))[k := x]))) \<and>
   (slice_base s + slice_len s \<le> next_free md \<and>
    DelegatorBonds_Get_mem md s delegatee = (md', j, Some q) \<longrightarrow>
      q = next_free md \<and>
      q \<notin> {slice_base s ..< slice_base s + slice_len s} \<and> j < slice_len s \<and>
      structs md' q = structs md (slice_base s + j) \<and>
      bytes md' = bytes md \<and>
      DelegatorBonds_elems s md' = DelegatorBonds_elems s md \<and>
      (\<forall>v. DelegatorBonds_elems s (assign md' q v) = DelegatorBonds_elems s md) \<and>
      DelegatorBonds_Get (DelegatorBonds_elems s md) (load_Actor md delegatee)
        = (j, Some (load_DelegatorBond md' (structs md' q))) \<and>
      (\<forall>k x. k < length (Address (DelegatorBond.Delegatee (DelegatorBonds_elems s md ! j))) \<longrightarrow>
         (\<exists>m''. store_Delegator_Address_byte md' q k x = Inr m'' \<and>
            Address (DelegatorBond.Delegatee (DelegatorBonds_elems s m'' ! j))
              = (Address (DelegatorBond.Delegatee (DelegatorBonds_elems s md ! j)))[k := x])))"
  using DelegateeBonds_Get_mem_copy [of s m delegatee m' i p]
    DelegateeBonds_shared_bytes [of s m delegatee m' i p]
    DelegatorBonds_Get_mem_copy [of s md delegatee md' j q]
    DelegatorBonds_shared_bytes [of s md delegatee md' j q]
  by blast

theorem Get_returns_pointer_to_shallow_copy_witness:
  "snd (DelegateeBonds_Get_mem candidates_memory both_cells (actor_ref ''b'' 3)) = (1, Some 2) \<and>
   DelegateeBonds_elems both_cells
     (assign (fst (DelegateeBonds_Get_mem candidates_memory both_cells (actor_ref ''b'' 3)))
        2 (candidate_ref ''z'' 3))
     = DelegateeBonds_elems both_cells candidates_memory \<and>
   \<not> isl (store_Delegatee_Address_byte
     (fst (DelegateeBonds_Get_mem candidates_memory both_cells (actor_ref ''b'' 3))) 2 1 7) \<and>
   snd (DelegatorBonds_Get_mem delegations_memory both_cells (actor_ref ''b'' 3)) = (1, Some 2) \<and>
   DelegatorBonds_elems both_cells
     (assign (fst (DelegatorBonds_Get_mem delegations_memory both_cells (actor_ref ''b'' 3)))
        2 (delegation_ref ''z'' 3))
     = DelegatorBonds_elems both_cells delegations_memory \<and>
   \<not> isl (store_Delegator_Address_byte
     (fst (DelegatorBonds_Get_mem delegations_memory both_cells (actor_ref ''b'' 3))) 2 1 7)"
proof -
  let ?r = "DelegateeBonds_Get_mem candidates_memory both_cells (actor_ref ''b'' 3)"
  let ?rd = "DelegatorBonds_Get_mem delegations_memory both_cells (actor_ref ''b'' 3)"
  have sn: "snd ?r = (1, Some 2)" by code_simp
  then have run: "?r = (fst ?r, 1, Some 2)" by (metis prod.collapse)
  have alloc: "slice_base both_cells + slice_len both_cells \<le> next_free candidates_memory"
    by (simp add: both_cells_def candidates_memory_def)
  from Get_returns_pointer_to_shallow_copy
    [of both_cells candidates_memory "actor_ref ''b'' 3" "fst ?r" 1 2] alloc run
  have wr: "\<forall>v. DelegateeBonds_elems both_cells (assign (fst ?r) 2 v)
      = DelegateeBonds_elems both_cells candidates_memory"
    by blast
  have k: "1 < length (Address (DelegateeBond.Delegatee
      (DelegateeBonds_elems both_cells candidates_memory ! 1)))"
    by code_simp
  from Get_returns_pointer_to_shallow_copy
    [of both_cells candidates_memory "actor_ref ''b'' 3" "fst ?r" 1 2] alloc run k
  obtain m'' where "store_Delegatee_Address_byte (fst ?r) 2 1 7 = Inr m''"
    by blast
  then have st: "\<not> isl (store_Delegatee_Address_byte (fst ?r) 2 1 7)" by simp
  have snd: "snd ?rd = (1, Some 2)" by code_simp
  then have rund: "?rd = (fst ?rd, 1, Some 2)" by (metis prod.collapse)
  have allocd: "slice_base both_cells + slice_len both_cells \<le> next_free delegations_memory"
    by (simp add: both_cells_def delegations_memory_def)
  from Get_returns_pointer_to_shallow_copy
    [of both_cells _ "actor_ref ''b'' 3" _ _ _ delegations_memory "fst ?rd" 1 2] allocd rund
  have wrd: "\<forall>v. DelegatorBonds_elems both_cells (assign (fst ?rd) 2 v)
      = DelegatorBonds_elems both_cells delegations_memory"
    by blast
  have kd: "1 < length (Address (DelegatorBond.Delegatee
      (DelegatorBonds_elems both_cells delegations_memory ! 1)))"
    by code_simp
  from Get_returns_pointer_to_shallow_copy
    [of both_cells _ "actor_ref ''b'' 3" _ _ _ delegations_memory "fst ?rd" 1 2] allocd rund kd
  obtain md'' where "store_Delegator_Address_byte (fst ?rd) 2 1 7 = Inr md''"
    by blast
  then have std: "\<not> isl (store_Delegator_Address_byte (fst ?rd) 2 1 7)" by simp
  from sn wr st snd wrd std show ?thesis by simp
qed

text \<open>
  C10 as stated fails. The collection holds ''a'' with the address bytes 1, 2 and ''b''
  with the address bytes 3, 4; \<open>Get\<close> for ''b'' returns index 1 and the pointer 2.
  Assigning 255 to the first byte of \<open>Delegatee.Address\<close> through that pointer changes the
  address of the element at index 1 of the collection to 255, 4.
\<close>

theorem Get_pointer_shares_address_bytes:
  "snd (DelegateeBonds_Get_mem candidates_memory both_cells (actor_ref ''b'' 3)) = (1, Some 2) \<and>
   map (Address \<circ> DelegateeBond.Delegatee) (DelegateeBonds_elems both_cells candidates_memory)
     = [[1, 2], [3, 4]] \<and>
   map_sum id (map (Address \<circ> DelegateeBond.Delegatee) \<circ> DelegateeBonds_elems both_cells)
     (store_Delegatee_Address_byte
        (fst (DelegateeBonds_Get_mem candidates_memory both_cells (actor_ref ''b'' 3))) 2 0 255)
     = Inr [[1, 2], [255, 4]]"
  by code_simp

end
